theory Spec2Isabelle
  imports Complex_Main "HOL-Library.Multiset"
begin

section \<open>Numbers and complex arithmetic (quantum.js)\<close>

text \<open>
  JavaScript numbers are modelled by the real numbers: rounding, signed zeros, NaN and
  infinities of IEEE doubles are outside this embedding, so every "within tolerance" below
  is about exact real arithmetic.  A \<^verbatim>\<open>{re, im}\<close> object is a value of type \<^typ>\<open>complex\<close>
  with the selectors \<^const>\<open>Re\<close> and \<^const>\<open>Im\<close>; the source's \<^verbatim>\<open>complex(re, im)\<close> is
  \<^const>\<open>Complex\<close>.  The operations are written out component by component, as the source
  has them, and related to the library's field operations by lemmas afterwards.
\<close>

definition SQRT2_INV :: real where
  "SQRT2_INV = 1 / sqrt 2"

definition cAdd :: "complex \<Rightarrow> complex \<Rightarrow> complex" where
  "cAdd a b = Complex (Re a + Re b) (Im a + Im b)"

definition cSub :: "complex \<Rightarrow> complex \<Rightarrow> complex" where
  "cSub a b = Complex (Re a - Re b) (Im a - Im b)"

definition cMul :: "complex \<Rightarrow> complex \<Rightarrow> complex" where
  "cMul a b = Complex (Re a * Re b - Im a * Im b) (Re a * Im b + Im a * Re b)"

definition cConj :: "complex \<Rightarrow> complex" where
  "cConj a = Complex (Re a) (- Im a)"

definition cAbs :: "complex \<Rightarrow> real" where
  "cAbs a = sqrt (Re a * Re a + Im a * Im a)"

text \<open>
  \<^verbatim>\<open>Math.atan2(y, x)\<close> on reals: the angle of the point \<open>(x, y)\<close> in \<open>(-\<pi>, \<pi>]\<close>, and 0 at
  the origin.
\<close>

definition atan2 :: "real \<Rightarrow> real \<Rightarrow> real" where
  "atan2 y x =
     (if 0 < x then arctan (y / x)
      else if x < 0 then (if 0 \<le> y then arctan (y / x) + pi else arctan (y / x) - pi)
      else if 0 < y then pi / 2
      else if y < 0 then - (pi / 2)
      else 0)"

definition cPhase :: "complex \<Rightarrow> real" where
  "cPhase a = atan2 (Im a) (Re a)"

definition cFromPolar :: "real \<Rightarrow> real \<Rightarrow> complex" where
  "cFromPolar r theta = Complex (r * cos theta) (r * sin theta)"

definition cScale :: "complex \<Rightarrow> real \<Rightarrow> complex" where
  "cScale a s = Complex (Re a * s) (Im a * s)"

subsection \<open>States and matrices\<close>

text \<open>
  A qubit state is the two-element array \<^verbatim>\<open>[alpha, beta]\<close>, a pair here; a gate matrix is
  the array of its two rows.
\<close>

type_synonym qstate = "complex \<times> complex"
type_synonym cmatrix = "(complex \<times> complex) \<times> (complex \<times> complex)"

definition normalize_state :: "qstate \<Rightarrow> qstate" where
  "normalize_state state =
     (let norm = sqrt ((cAbs (fst state))\<^sup>2 + (cAbs (snd state))\<^sup>2) in
      if norm = 0 then (Complex 1 0, Complex 0 0)
      else (Complex (Re (fst state) / norm) (Im (fst state) / norm),
            Complex (Re (snd state) / norm) (Im (snd state) / norm)))"

definition STATE_ZERO :: qstate where
  "STATE_ZERO = (Complex 1 0, Complex 0 0)"

definition STATE_ONE :: qstate where
  "STATE_ONE = (Complex 0 0, Complex 1 0)"

definition STATE_PLUS :: qstate where
  "STATE_PLUS = (Complex SQRT2_INV 0, Complex SQRT2_INV 0)"

definition getInitialQubitState :: "string \<Rightarrow> qstate" where
  "getInitialQubitState mode =
     (if mode = ''one'' then STATE_ONE
      else if mode = ''plus'' then STATE_PLUS
      else STATE_ZERO)"

definition createU3Matrix :: "real \<Rightarrow> real \<Rightarrow> real \<Rightarrow> cmatrix" where
  "createU3Matrix theta phi lambda =
     ((Complex (cos (theta / 2)) 0, cScale (cFromPolar 1 (- lambda)) (- sin (theta / 2))),
      (cScale (cFromPolar 1 phi) (sin (theta / 2)),
       cScale (cFromPolar 1 (phi + lambda)) (cos (theta / 2))))"

text \<open>\<^verbatim>\<open>applyMatrix(state, matrix)\<close>: a missing matrix leaves the state untouched.\<close>

definition applyMatrix :: "qstate \<Rightarrow> cmatrix option \<Rightarrow> qstate" where
  "applyMatrix state matrix =
     (case matrix of
        None \<Rightarrow> state
      | Some m \<Rightarrow>
          normalize_state
            (cAdd (cMul (fst (fst m)) (fst state)) (cMul (snd (fst m)) (snd state)),
             cAdd (cMul (fst (snd m)) (fst state)) (cMul (snd (snd m)) (snd state))))"

text \<open>
  Matrix product, conjugate transpose and identity are not functions of the source; they
  state what "unitary" means for the matrices the source builds.
\<close>

definition mat_mul :: "cmatrix \<Rightarrow> cmatrix \<Rightarrow> cmatrix" where
  "mat_mul A B =
     ((cAdd (cMul (fst (fst A)) (fst (fst B))) (cMul (snd (fst A)) (fst (snd B))),
       cAdd (cMul (fst (fst A)) (snd (fst B))) (cMul (snd (fst A)) (snd (snd B)))),
      (cAdd (cMul (fst (snd A)) (fst (fst B))) (cMul (snd (snd A)) (fst (snd B))),
       cAdd (cMul (fst (snd A)) (snd (fst B))) (cMul (snd (snd A)) (snd (snd B)))))"

definition conj_transpose :: "cmatrix \<Rightarrow> cmatrix" where
  "conj_transpose A =
     ((cConj (fst (fst A)), cConj (fst (snd A))),
      (cConj (snd (fst A)), cConj (snd (snd A))))"

definition identity2 :: cmatrix where
  "identity2 = ((Complex 1 0, Complex 0 0), (Complex 0 0, Complex 1 0))"

text \<open>The invariant of the data model: the squared amplitudes of a state sum to 1.\<close>

definition unitNorm :: "qstate \<Rightarrow> bool" where
  "unitNorm st \<longleftrightarrow> (cAbs (fst st))\<^sup>2 + (cAbs (snd st))\<^sup>2 = 1"

subsection \<open>The gate catalog\<close>

record decomposition =
  theta :: real
  phi :: real
  lambda :: real

record gate_ref =
  name :: string
  defaultMatrix :: cmatrix
  defaultDecomposition :: decomposition

text \<open>
  The own properties of the \<^verbatim>\<open>GATES\<close> object literal, in source order.  The display fields
  (label, description, color, animDuration, showDecomposition, isBarrier) are not read by
  any function modelled here.
\<close>

definition GATES :: "(string \<times> gate_ref) list" where
  "GATES =
     [(''I'', \<lparr>name = ''I'',
              defaultMatrix = ((Complex 1 0, Complex 0 0), (Complex 0 0, Complex 1 0)),
              defaultDecomposition = \<lparr>theta = 0, phi = 0, lambda = 0\<rparr>\<rparr>),
      (''X'', \<lparr>name = ''X'',
              defaultMatrix = ((Complex 0 0, Complex 1 0), (Complex 1 0, Complex 0 0)),
              defaultDecomposition = \<lparr>theta = pi, phi = 0, lambda = pi\<rparr>\<rparr>),
      (''Y'', \<lparr>name = ''Y'',
              defaultMatrix = ((Complex 0 0, Complex 0 (- 1)), (Complex 0 1, Complex 0 0)),
              defaultDecomposition = \<lparr>theta = pi, phi = pi / 2, lambda = pi / 2\<rparr>\<rparr>),
      (''Z'', \<lparr>name = ''Z'',
              defaultMatrix = ((Complex 1 0, Complex 0 0), (Complex 0 0, Complex (- 1) 0)),
              defaultDecomposition = \<lparr>theta = 0, phi = 0, lambda = pi\<rparr>\<rparr>),
      (''H'', \<lparr>name = ''H'',
              defaultMatrix = ((Complex SQRT2_INV 0, Complex SQRT2_INV 0),
                               (Complex SQRT2_INV 0, Complex (- SQRT2_INV) 0)),
              defaultDecomposition = \<lparr>theta = pi / 2, phi = 0, lambda = pi\<rparr>\<rparr>),
      (''S'', \<lparr>name = ''S'',
              defaultMatrix = ((Complex 1 0, Complex 0 0), (Complex 0 0, Complex 0 1)),
              defaultDecomposition = \<lparr>theta = 0, phi = 0, lambda = pi / 2\<rparr>\<rparr>),
      (''T'', \<lparr>name = ''T'',
              defaultMatrix = ((Complex 1 0, Complex 0 0), (Complex 0 0, cFromPolar 1 (pi / 4))),
              defaultDecomposition = \<lparr>theta = 0, phi = 0, lambda = pi / 4\<rparr>\<rparr>),
      (''U'', \<lparr>name = ''U'',
              defaultMatrix = ((Complex 1 0, Complex 0 0), (Complex 0 0, Complex 1 0)),
              defaultDecomposition = \<lparr>theta = 0, phi = 0, lambda = 0\<rparr>\<rparr>),
      (''BARRIER'', \<lparr>name = ''BARRIER'',
              defaultMatrix = ((Complex 1 0, Complex 0 0), (Complex 0 0, Complex 1 0)),
              defaultDecomposition = \<lparr>theta = 0, phi = 0, lambda = 0\<rparr>\<rparr>)]"

text \<open>
  \<^verbatim>\<open>GATES[gateName]\<close> is a JavaScript property read on an object literal: it finds the
  object's own properties and, failing that, the properties every object inherits from
  \<^verbatim>\<open>Object.prototype\<close>, whose values (functions, or the prototype object itself) are truthy
  and have no \<^verbatim>\<open>defaultMatrix\<close> or \<^verbatim>\<open>defaultDecomposition\<close>.
\<close>

definition Object_prototype_properties :: "string list" where
  "Object_prototype_properties =
     [''constructor'', ''__proto__'', ''hasOwnProperty'', ''isPrototypeOf'',
      ''propertyIsEnumerable'', ''toLocaleString'', ''toString'', ''valueOf'',
      ''__defineGetter__'', ''__defineSetter__'', ''__lookupGetter__'', ''__lookupSetter__'']"

datatype 'a js_property = Own 'a | Inherited | Undefined

definition GATES_get :: "string \<Rightarrow> gate_ref js_property" where
  "GATES_get gateName =
     (case map_of GATES gateName of
        Some gateRef \<Rightarrow> Own gateRef
      | None \<Rightarrow> if gateName \<in> set Object_prototype_properties then Inherited else Undefined)"

record gate_instance =
  gate :: string
  matrix :: "cmatrix option"
  decomposition :: "decomposition option"
  controlIndex :: "nat option"

datatype js_error = TypeError

text \<open>
  \<^verbatim>\<open>createGateInstance(gateName, decomposition = null)\<close>.  \<open>Inr None\<close> is the returned
  \<^verbatim>\<open>null\<close>; \<open>Inl TypeError\<close> is the exception of \<^verbatim>\<open>gateRef.defaultMatrix.map\<close> when
  \<^verbatim>\<open>gateRef\<close> has no \<^verbatim>\<open>defaultMatrix\<close>.
\<close>

definition createGateInstance ::
  "string \<Rightarrow> decomposition option \<Rightarrow> js_error + gate_instance option" where
  "createGateInstance gateName decomp_arg =
     (case GATES_get gateName of
        Undefined \<Rightarrow> Inr None
      | Own gateRef \<Rightarrow>
          (let decomp = (case decomp_arg of Some d \<Rightarrow> d | None \<Rightarrow> defaultDecomposition gateRef);
               m = (if gateName = ''U'' \<or> decomp_arg \<noteq> None
                    then createU3Matrix (theta decomp) (phi decomp) (lambda decomp)
                    else defaultMatrix gateRef)
           in Inr (Some \<lparr>gate = gateName, matrix = Some m, decomposition = Some decomp,
                         controlIndex = None\<rparr>))
      | Inherited \<Rightarrow>
          (case decomp_arg of
             Some d \<Rightarrow>
               Inr (Some \<lparr>gate = gateName,
                          matrix = Some (createU3Matrix (theta d) (phi d) (lambda d)),
                          decomposition = Some d, controlIndex = None\<rparr>)
           | None \<Rightarrow> Inl TypeError))"

text \<open>\<^verbatim>\<open>applyGate(state, gateInstance)\<close>.\<close>

definition applyGate :: "qstate \<Rightarrow> 'a gate_instance_scheme \<Rightarrow> qstate" where
  "applyGate st gateInstance =
     (if gate gateInstance = ''BARRIER'' then st else applyMatrix st (matrix gateInstance))"

record probabilities =
  prob0 :: real
  prob1 :: real

definition getProbabilities :: "qstate \<Rightarrow> probabilities" where
  "getProbabilities st = \<lparr>prob0 = (cAbs (fst st))\<^sup>2, prob1 = (cAbs (snd st))\<^sup>2\<rparr>"

subsection \<open>Angles, division and the kickback detector\<close>

text \<open>
  \<^verbatim>\<open>normalizeAngle\<close> is two \<^verbatim>\<open>while\<close> loops; each is a recursive function whose termination
  is proved with the number of remaining turns as measure.
\<close>

function normalizeAngle_down :: "real \<Rightarrow> real" where
  "normalizeAngle_down a = (if a > pi then normalizeAngle_down (a - 2 * pi) else a)"
  by pat_completeness auto
termination
proof (relation "measure (\<lambda>a. nat \<lceil>a / (2 * pi)\<rceil>)")
  show "wf (measure (\<lambda>a. nat \<lceil>a / (2 * pi)\<rceil>))"
    by simp
next
  fix a :: real
  assume a: "pi < a"
  have "(a - 2 * pi) / (2 * pi) = a / (2 * pi) - 1"
    by (simp add: diff_divide_distrib)
  then have c: "\<lceil>(a - 2 * pi) / (2 * pi)\<rceil> = \<lceil>a / (2 * pi)\<rceil> - 1"
    by simp
  have "0 < a"
    using a pi_gt_zero by linarith
  then have "0 < a / (2 * pi)"
    by simp
  then have "0 < \<lceil>a / (2 * pi)\<rceil>"
    by simp
  with c show "(a - 2 * pi, a) \<in> measure (\<lambda>a. nat \<lceil>a / (2 * pi)\<rceil>)"
    by simp
qed

function normalizeAngle_up :: "real \<Rightarrow> real" where
  "normalizeAngle_up a = (if a < - pi then normalizeAngle_up (a + 2 * pi) else a)"
  by pat_completeness auto
termination
proof (relation "measure (\<lambda>a. nat \<lceil>- a / (2 * pi)\<rceil>)")
  show "wf (measure (\<lambda>a. nat \<lceil>- a / (2 * pi)\<rceil>))"
    by simp
next
  fix a :: real
  assume a: "a < - pi"
  define x where "x = - a / (2 * pi)"
  have e: "- (a + 2 * pi) / (2 * pi) = x - 1"
    unfolding x_def using pi_gt_zero by (simp add: field_simps)
  have "0 < - a"
    using a pi_gt_zero by linarith
  then have "0 < x"
    unfolding x_def using pi_gt_zero by (intro divide_pos_pos) simp_all
  then have "0 < \<lceil>x\<rceil>"
    by simp
  then have "nat \<lceil>x - 1\<rceil> < nat \<lceil>x\<rceil>"
    by simp
  then show "(a + 2 * pi, a) \<in> measure (\<lambda>a. nat \<lceil>- a / (2 * pi)\<rceil>)"
    unfolding in_measure e x_def .
qed

declare normalizeAngle_down.simps [simp del] normalizeAngle_up.simps [simp del]

definition normalizeAngle :: "real \<Rightarrow> real" where
  "normalizeAngle angle = normalizeAngle_up (normalizeAngle_down angle)"

definition complexDiv :: "complex \<Rightarrow> complex \<Rightarrow> complex" where
  "complexDiv a b =
     (let den = Re b * Re b + Im b * Im b in
      if den < 1 / 10 ^ 12 then Complex 0 0
      else Complex ((Re a * Re b + Im a * Im b) / den) ((Im a * Re b - Re a * Im b) / den))"

text \<open>\<^verbatim>\<open>Array.prototype.findIndex\<close>; \<open>None\<close> is the source's \<open>-1\<close>.\<close>

fun findIndex :: "('a \<Rightarrow> bool) \<Rightarrow> 'a list \<Rightarrow> nat option" where
  "findIndex P [] = None"
| "findIndex P (x # xs) =
     (if P x then Some 0 else map_option Suc (findIndex P xs))"

definition amplitudes :: "qstate \<Rightarrow> complex list" where
  "amplitudes st = [fst st, snd st]"

text \<open>
  \<^verbatim>\<open>getKickbackPhaseForControlledGate(targetGate, targetStateBefore, tolerance = 0.01)\<close>.
  The result \<open>None\<close> is \<^verbatim>\<open>null\<close>.  The \<^verbatim>\<open>for\<close> loop over the basis indices returns
  \<^verbatim>\<open>null\<close> at the first index whose difference exceeds \<open>2 * tolerance\<close>.
\<close>

definition getKickbackPhaseForControlledGate ::
  "'a gate_instance_scheme option \<Rightarrow> qstate option \<Rightarrow> real \<Rightarrow> real option" where
  "getKickbackPhaseForControlledGate targetGate targetStateBefore tolerance =
     (case targetGate of
        None \<Rightarrow> None
      | Some g \<Rightarrow>
          if gate g = ''BARRIER'' \<or> gate g = ''CONTROL'' \<or> matrix g = None then None
          else
            let st = (case targetStateBefore of Some s \<Rightarrow> s | None \<Rightarrow> STATE_ZERO);
                evolved = applyMatrix st (matrix g)
            in case findIndex (\<lambda>amp. cAbs amp > tolerance) (amplitudes st) of
                 None \<Rightarrow> None
               | Some referenceIdx \<Rightarrow>
                   let rawPhase = complexDiv (amplitudes evolved ! referenceIdx)
                                             (amplitudes st ! referenceIdx);
                       rawMag = cAbs rawPhase
                   in if rawMag \<le> tolerance then None
                      else
                        let unitPhase = cScale rawPhase (1 / rawMag) in
                        if list_ex (\<lambda>i. cAbs (cSub (amplitudes evolved ! i)
                                                  (cMul unitPhase (amplitudes st ! i)))
                                          > tolerance * 2)
                             [0..<length (amplitudes st)]
                        then None
                        else
                          let phase = normalizeAngle (cPhase unitPhase) in
                          Some (if \<bar>phase\<bar> > tolerance then phase else 0))"

subsection \<open>Joint probabilities and decomposition extraction\<close>

text \<open>
  \<^verbatim>\<open>(x >> s) & 1\<close> on JavaScript numbers: \<open>x\<close> is taken modulo \<open>2^32\<close> and the shift count
  modulo 32; the lowest bit of the shifted value is bit \<open>s mod 32\<close> of that 32-bit pattern.
\<close>

definition js_bit :: "nat \<Rightarrow> nat \<Rightarrow> nat" where
  "js_bit x s = ((x mod 2 ^ 32) div 2 ^ (s mod 32)) mod 2"

text \<open>
  The inner loop of \<^verbatim>\<open>getMultiQubitProbabilities\<close> for one basis index \<open>i\<close>: it returns the
  pair \<^verbatim>\<open>(prob, stateLabel)\<close>.
\<close>

definition basisOutcome :: "qstate list \<Rightarrow> nat \<Rightarrow> real \<times> string" where
  "basisOutcome qubitStates i =
     foldl (\<lambda>(prob, stateLabel) q.
              let bit = js_bit i (length qubitStates - 1 - q);
                  qubitProbs = getProbabilities (qubitStates ! q)
              in (prob * (if bit = 0 then prob0 qubitProbs else prob1 qubitProbs),
                  stateLabel @ (if bit = 0 then ''0'' else ''1'')))
           (1, []) [0..<length qubitStates]"

text \<open>
  A result entry \<^verbatim>\<open>{state, probability}\<close> is the pair of the label and the probability.
  The comparator \<^verbatim>\<open>b.probability - a.probability\<close> with the stable \<^verbatim>\<open>Array.prototype.sort\<close>
  is a stable sort by descending probability.
\<close>

definition getMultiQubitProbabilities :: "qstate list \<Rightarrow> bool \<Rightarrow> (string \<times> real) list" where
  "getMultiQubitProbabilities qubitStates includeZero =
     sort_key (\<lambda>e. - snd e)
       (concat (map (\<lambda>i. let (prob, stateLabel) = basisOutcome qubitStates i in
                          if includeZero \<or> prob > 0.001 then [(stateLabel, prob)] else [])
                    [0..<2 ^ length qubitStates]))"

definition extractRotationFromMatrix :: "cmatrix option \<Rightarrow> decomposition" where
  "extractRotationFromMatrix mo =
     (case mo of
        None \<Rightarrow> \<lparr>theta = 0, phi = 0, lambda = 0\<rparr>
      | Some m \<Rightarrow>
          let a = fst (fst m); b = snd (fst m); c = fst (snd m); d = snd (snd m);
              aMag = cAbs a;
              cMag = cAbs c
          in if aMag < 0.0001 then \<lparr>theta = pi, phi = cPhase c, lambda = - cPhase b\<rparr>
             else if cMag < 0.0001 then
               (let phiPlusLambda = cPhase d - cPhase a in
                \<lparr>theta = 0, phi = phiPlusLambda / 2, lambda = phiPlusLambda / 2\<rparr>)
             else \<lparr>theta = 2 * arccos (min 1 aMag), phi = cPhase c, lambda = - cPhase b\<rparr>)"

record bloch =
  cx :: real
  cy :: real
  cz :: real
  ctheta :: real
  cphi :: real

definition stateToBlochCoords :: "qstate \<Rightarrow> bloch" where
  "stateToBlochCoords st =
     (let alpha = fst st; beta = snd st;
          p0 = (cAbs alpha)\<^sup>2;
          th = 2 * arccos (sqrt (max 0 (min 1 p0)));
          ph = cPhase beta - cPhase alpha
      in \<lparr>cx = sin th * cos ph, cy = sin th * sin ph, cz = cos th, ctheta = th, cphi = ph\<rparr>)"

section \<open>The branch engine (App component)\<close>

text \<open>
  A circuit is the array of rows, one per wire; a row is an array of cells, each a gate
  instance or empty (\<^verbatim>\<open>null\<close> or a hole).  \<^verbatim>\<open>getOrderedGates\<close> copies every occupied cell
  and adds its slot; derived kickback gates carry \<^verbatim>\<open>isDerivedKickback\<close>.  The control
  marker is the cell \<^verbatim>\<open>{gate: 'CONTROL', targetIndex, controlIndex: null}\<close>; its
  \<^verbatim>\<open>targetIndex\<close> is not read by the engine.
\<close>

record slotted_gate = gate_instance +
  slot :: nat
  isDerivedKickback :: bool

type_synonym circuit = "gate_instance option list list"

definition withSlot :: "gate_instance \<Rightarrow> nat \<Rightarrow> slotted_gate" where
  "withSlot g s =
     \<lparr>gate = gate g, matrix = matrix g, decomposition = decomposition g,
      controlIndex = controlIndex g, slot = s, isDerivedKickback = False\<rparr>"

text \<open>Reading \<^verbatim>\<open>xs[i]\<close>: \<^verbatim>\<open>undefined\<close> (\<open>None\<close>) outside the array.\<close>

definition js_index :: "'a list \<Rightarrow> int \<Rightarrow> 'a option" where
  "js_index xs i = (if 0 \<le> i \<and> i < int (length xs) then Some (xs ! nat i) else None)"

definition getOrderedGates :: "circuit \<Rightarrow> nat list \<Rightarrow> nat \<Rightarrow> int \<Rightarrow> slotted_gate list" where
  "getOrderedGates circuits barriers qubitIndex frame =
     (let row = (if qubitIndex < length circuits then circuits ! qubitIndex else []);
          sortedBarriers = sort barriers;
          entries = sort_key slot
                      (concat (map (\<lambda>(s, cell). case cell of None \<Rightarrow> [] | Some g \<Rightarrow> [withSlot g s])
                                   (enumerate 0 row)))
      in if frame = 0 then []
         else if frame > int (length barriers) then entries
         else (case js_index sortedBarriers (frame - 1) of
                 None \<Rightarrow> entries
               | Some barrierSlot \<Rightarrow> filter (\<lambda>e. slot e < barrierSlot) entries))"

definition maxSlotOf :: "circuit \<Rightarrow> nat" where
  "maxSlotOf circuits =
     foldl (\<lambda>m row. foldl (\<lambda>m' (s, g). if g \<noteq> None then max m' s else m') m (enumerate 0 row))
           0 circuits"

text \<open>
  The loop of \<^verbatim>\<open>buildColumnStateCache\<close> over the slots \<open>0 .. maxSlot + 1\<close> of one wire: the
  list of the states before each slot.  (The entry at key \<open>-1\<close> is never read.)
\<close>

fun columnStates :: "slotted_gate list \<Rightarrow> nat list \<Rightarrow> qstate \<Rightarrow> qstate list" where
  "columnStates sortedGates [] st = []"
| "columnStates sortedGates (s # ss) st =
     st # columnStates sortedGates ss
            (case find (\<lambda>g. slot g = s) sortedGates of
               Some gateAtSlot \<Rightarrow>
                 if gate gateAtSlot \<noteq> ''BARRIER'' \<and> gate gateAtSlot \<noteq> ''CONTROL''
                 then applyGate st gateAtSlot else st
             | None \<Rightarrow> st)"

definition buildColumnStateCache ::
  "circuit \<Rightarrow> nat list \<Rightarrow> string \<Rightarrow> int \<Rightarrow> qstate list list" where
  "buildColumnStateCache circuits barriers mode frame =
     map (\<lambda>qi. columnStates (sort_key slot (getOrderedGates circuits barriers qi frame))
                  [0..<maxSlotOf circuits + 2] (getInitialQubitState mode))
         [0..<length circuits]"

text \<open>\<^verbatim>\<open>stateCache[q]?.[slot] || getInitialState()\<close>, also \<^verbatim>\<open>getControlStateAtSlot\<close>.\<close>

definition getControlStateAtSlot :: "qstate list list \<Rightarrow> qstate \<Rightarrow> nat \<Rightarrow> nat \<Rightarrow> qstate" where
  "getControlStateAtSlot stateCache init ctrlQubit s =
     (if ctrlQubit < length stateCache
      then (if s < length (stateCache ! ctrlQubit) then stateCache ! ctrlQubit ! s else init)
      else init)"

definition kickbackGate :: "real \<Rightarrow> nat \<Rightarrow> slotted_gate" where
  "kickbackGate phase s =
     \<lparr>gate = ''U'', matrix = Some (createU3Matrix 0 0 phase),
      decomposition = Some \<lparr>theta = 0, phi = 0, lambda = phase\<rparr>,
      controlIndex = None, slot = s, isDerivedKickback = True\<rparr>"

definition getKickbackGatesForControl ::
  "circuit \<Rightarrow> nat list \<Rightarrow> string \<Rightarrow> int \<Rightarrow> qstate list list \<Rightarrow> nat \<Rightarrow> slotted_gate list" where
  "getKickbackGatesForControl circuits barriers mode frame stateCache controlQubit =
     concat (map (\<lambda>targetQubit.
       concat (map (\<lambda>g.
         if gate g = ''CONTROL'' then []
         else if controlIndex g \<noteq> Some controlQubit then []
         else
           (let targetStateBefore =
                  getControlStateAtSlot stateCache (getInitialQubitState mode) targetQubit (slot g)
            in case getKickbackPhaseForControlledGate (Some g) (Some targetStateBefore) 0.01 of
                 None \<Rightarrow> []
               | Some phase \<Rightarrow> if \<bar>phase\<bar> \<le> 0.01 then [] else [kickbackGate phase (slot g)]))
         (getOrderedGates circuits barriers targetQubit frame)))
       [0..<length circuits])"

fun buildRotations :: "slotted_gate list \<Rightarrow> decomposition list" where
  "buildRotations [] = []"
| "buildRotations (g # gs) =
     (if gate g = ''BARRIER'' \<or> gate g = ''CONTROL'' then buildRotations gs
      else case decomposition g of
             None \<Rightarrow> buildRotations gs
           | Some d \<Rightarrow>
               if \<bar>theta d\<bar> > 0.01 \<or> \<bar>phi d\<bar> > 0.01 \<or> \<bar>lambda d\<bar> > 0.01
               then d # buildRotations gs
               else buildRotations gs)"

fun applyGates :: "slotted_gate list \<Rightarrow> qstate \<Rightarrow> qstate" where
  "applyGates [] st = st"
| "applyGates (g # gs) st =
     (if gate g = ''BARRIER'' \<or> gate g = ''CONTROL'' then applyGates gs st
      else applyGates gs (applyGate st g))"

record branch =
  state :: qstate
  coords :: bloch
  probability :: real
  rotations :: "decomposition list"

definition isControlledGate :: "slotted_gate \<Rightarrow> bool" where
  "isControlledGate g \<longleftrightarrow> controlIndex g \<noteq> None \<and> gate g \<noteq> ''CONTROL''"

text \<open>\<^verbatim>\<open>[...new Set(xs)]\<close>: the distinct elements in the order of their first occurrence.\<close>

fun uniqueInOrder :: "'a list \<Rightarrow> 'a list" where
  "uniqueInOrder [] = []"
| "uniqueInOrder (x # xs) = x # uniqueInOrder (filter (\<lambda>y. y \<noteq> x) xs)"

definition uniqueControlsOf :: "slotted_gate list \<Rightarrow> nat list" where
  "uniqueControlsOf gates =
     uniqueInOrder (List.map_filter controlIndex (filter isControlledGate gates))"

text \<open>
  \<^verbatim>\<open>controlProbs\<close>.  Every element of \<^verbatim>\<open>uniqueControls\<close> is the control of some controlled
  gate, so the \<^verbatim>\<open>find\<close> succeeds; the \<open>None\<close> branch only makes the definition total.
\<close>

definition controlProbsOf :: "qstate list list \<Rightarrow> qstate \<Rightarrow> slotted_gate list \<Rightarrow> real list" where
  "controlProbsOf stateCache init gates =
     map (\<lambda>ctrlIdx.
            case find (\<lambda>g. controlIndex g = Some ctrlIdx) (filter isControlledGate gates) of
              Some ctrlGate \<Rightarrow>
                prob1 (getProbabilities (getControlStateAtSlot stateCache init ctrlIdx (slot ctrlGate)))
            | None \<Rightarrow> 0)
         (uniqueControlsOf gates)"

text \<open>The inner loop over the controls for one \<^verbatim>\<open>combo\<close>: the probability \<open>\<dots>\<close>\<close>

definition comboProbability :: "real list \<Rightarrow> nat \<Rightarrow> real" where
  "comboProbability controlProbs combo =
     foldl (\<lambda>p i. p * (if js_bit combo i = 1 then controlProbs ! i else 1 - controlProbs ! i))
           1 [0..<length controlProbs]"

text \<open>\<open>\<dots>\<close> and the object \<^verbatim>\<open>controlActive\<close>.\<close>

definition controlActive :: "nat list \<Rightarrow> nat \<Rightarrow> (nat \<rightharpoonup> bool)" where
  "controlActive uniqueControls combo =
     foldl (\<lambda>m i. m(uniqueControls ! i \<mapsto> (js_bit combo i = 1)))
           Map.empty [0..<length uniqueControls]"

definition activeGatesOf :: "slotted_gate list \<Rightarrow> nat list \<Rightarrow> nat \<Rightarrow> slotted_gate list" where
  "activeGatesOf gates uniqueControls combo =
     filter (\<lambda>g. if gate g = ''CONTROL'' then False
                 else case controlIndex g of
                        None \<Rightarrow> True
                      | Some c \<Rightarrow> controlActive uniqueControls combo c = Some True)
            gates"

definition comboBranch ::
  "qstate \<Rightarrow> slotted_gate list \<Rightarrow> nat list \<Rightarrow> real list \<Rightarrow> nat \<Rightarrow> branch" where
  "comboBranch init gates uniqueControls controlProbs combo =
     (let activeGates = activeGatesOf gates uniqueControls combo;
          st = applyGates activeGates init
      in \<lparr>state = st, coords = stateToBlochCoords st,
          probability = comboProbability controlProbs combo,
          rotations = buildRotations activeGates\<rparr>)"

text \<open>
  The enumeration loop
  \<^verbatim>\<open>for (combo = 0; combo < numCombinations && branches.length < 10; combo++)\<close>.
\<close>

function enumerateBranches ::
  "qstate \<Rightarrow> slotted_gate list \<Rightarrow> nat list \<Rightarrow> real list \<Rightarrow> nat \<Rightarrow> branch list \<Rightarrow> branch list" where
  "enumerateBranches init gates uniqueControls controlProbs combo branches =
     (if combo < 2 ^ length uniqueControls \<and> length branches < 10
      then (if comboProbability controlProbs combo < 0.01
            then enumerateBranches init gates uniqueControls controlProbs (combo + 1) branches
            else enumerateBranches init gates uniqueControls controlProbs (combo + 1)
                   (branches @ [comboBranch init gates uniqueControls controlProbs combo]))
      else branches)"
  by pat_completeness auto
termination
  by (relation "measure (\<lambda>(init, gates, uniqueControls, controlProbs, combo, branches).
                           2 ^ length uniqueControls - combo)") auto

declare enumerateBranches.simps [simp del]

definition coordsEqual :: "bloch \<Rightarrow> bloch \<Rightarrow> bool" where
  "coordsEqual c1 c2 \<longleftrightarrow>
     \<bar>cx c1 - cx c2\<bar> < 0.01 \<and> \<bar>cy c1 - cy c2\<bar> < 0.01 \<and> \<bar>cz c1 - cz c2\<bar> < 0.01"

definition getTotalPhases :: "decomposition list \<Rightarrow> decomposition" where
  "getTotalPhases rs =
     (let total = foldl (\<lambda>(t, l, p) r. (t + theta r, l + lambda r, p + phi r)) (0, 0, 0) rs
      in \<lparr>theta = normalizeAngle (fst total),
          phi = normalizeAngle (snd (snd total)),
          lambda = normalizeAngle (fst (snd total))\<rparr>)"

definition phasesEqual :: "decomposition list \<Rightarrow> decomposition list \<Rightarrow> bool" where
  "phasesEqual rots1 rots2 \<longleftrightarrow>
     (let p1 = getTotalPhases rots1; p2 = getTotalPhases rots2
      in \<bar>theta p1 - theta p2\<bar> < 0.01 \<and> \<bar>lambda p1 - lambda p2\<bar> < 0.01 \<and> \<bar>phi p1 - phi p2\<bar> < 0.01)"

text \<open>
  The merge loop: \<open>mergeBranches branches mergedBranches\<close> adds each branch to the first
  merged branch at the same position and phase, or appends a copy of it.
\<close>

fun mergeBranches :: "branch list \<Rightarrow> branch list \<Rightarrow> branch list" where
  "mergeBranches [] mergedBranches = mergedBranches"
| "mergeBranches (b # bs) mergedBranches =
     (case findIndex (\<lambda>e. coordsEqual (coords e) (coords b) \<and>
                          phasesEqual (rotations e) (rotations b)) mergedBranches of
        Some i \<Rightarrow>
          mergeBranches bs
            (mergedBranches[i := (mergedBranches ! i)
                                   \<lparr>probability := probability (mergedBranches ! i) + probability b\<rparr>])
      | None \<Rightarrow> mergeBranches bs (mergedBranches @ [b]))"

definition singleBranch :: "qstate \<Rightarrow> slotted_gate list \<Rightarrow> branch" where
  "singleBranch init gates =
     (let st = applyGates gates init
      in \<lparr>state = st, coords = stateToBlochCoords st, probability = 1,
          rotations = buildRotations gates\<rparr>)"

definition rawBranches :: "qstate list list \<Rightarrow> qstate \<Rightarrow> slotted_gate list \<Rightarrow> branch list" where
  "rawBranches stateCache init gates =
     enumerateBranches init gates (uniqueControlsOf gates)
       (controlProbsOf stateCache init gates) 0 []"

definition emitBranches :: "qstate \<Rightarrow> branch list \<Rightarrow> branch list" where
  "emitBranches init branches =
     (let mergedBranches = take 10 (sort_key (\<lambda>b. - probability b) (mergeBranches branches []))
      in if length mergedBranches > 0 then mergedBranches
         else [\<lparr>state = init, coords = stateToBlochCoords init, probability = 1, rotations = []\<rparr>])"

definition wireBranches :: "qstate list list \<Rightarrow> qstate \<Rightarrow> slotted_gate list \<Rightarrow> branch list" where
  "wireBranches stateCache init gates =
     (if \<not> list_ex isControlledGate gates then [singleBranch init gates]
      else emitBranches init (rawBranches stateCache init gates))"

definition displayFrame :: "nat list \<Rightarrow> int \<Rightarrow> int" where
  "displayFrame barriers animationFrame =
     (if animationFrame < 0 then (int (length barriers) + 2) - 1 else animationFrame)"

definition effectiveGates ::
  "circuit \<Rightarrow> nat list \<Rightarrow> string \<Rightarrow> int \<Rightarrow> nat \<Rightarrow> slotted_gate list" where
  "effectiveGates circuits barriers mode frame qi =
     sort_key slot
       (getOrderedGates circuits barriers qi frame @
        getKickbackGatesForControl circuits barriers mode frame
          (buildColumnStateCache circuits barriers mode frame) qi)"

text \<open>
  \<^verbatim>\<open>qubitBranches\<close>, from the circuit, the barriers, the initial-state mode and the
  animation frame (a negative frame shows the whole circuit).
\<close>

definition qubitBranches :: "circuit \<Rightarrow> nat list \<Rightarrow> string \<Rightarrow> int \<Rightarrow> branch list list" where
  "qubitBranches circuits barriers mode animationFrame =
     (let frame = displayFrame barriers animationFrame;
          stateCache = buildColumnStateCache circuits barriers mode frame
      in map (\<lambda>qi. wireBranches stateCache (getInitialQubitState mode)
                     (effectiveGates circuits barriers mode frame qi))
             [0..<length circuits])"

text \<open>
  \<^verbatim>\<open>qubitStates\<close>: per wire the state of the first branch of largest probability
  (\<^verbatim>\<open>reduce\<close> without an initial value; on an empty list it throws, \<open>None\<close> here).
\<close>

definition pickBranch :: "branch list \<Rightarrow> branch option" where
  "pickBranch bs =
     (case bs of
        [] \<Rightarrow> None
      | b # rest \<Rightarrow> Some (foldl (\<lambda>a c. if probability c > probability a then c else a) b rest))"

definition qubitStates :: "circuit \<Rightarrow> nat list \<Rightarrow> string \<Rightarrow> int \<Rightarrow> qstate option list" where
  "qubitStates circuits barriers mode animationFrame =
     map (\<lambda>bs. map_option state (pickBranch bs)) (qubitBranches circuits barriers mode animationFrame)"


section \<open>Example circuits\<close>

text \<open>
  Gate instances as \<^const>\<open>createGateInstance\<close> returns them, the control marker the editor
  places, and the circuits of the kickback scenarios: wire 0 is the control wire with a
  Hadamard gate in slot 0, wire 1 the target wire, and the controlled gate sits in slot 1.
\<close>

definition gate_H :: gate_instance where
  "gate_H = \<lparr>gate = ''H'',
             matrix = Some ((Complex SQRT2_INV 0, Complex SQRT2_INV 0),
                            (Complex SQRT2_INV 0, Complex (- SQRT2_INV) 0)),
             decomposition = Some \<lparr>theta = pi / 2, phi = 0, lambda = pi\<rparr>,
             controlIndex = None\<rparr>"

definition gate_X :: gate_instance where
  "gate_X = \<lparr>gate = ''X'',
             matrix = Some ((Complex 0 0, Complex 1 0), (Complex 1 0, Complex 0 0)),
             decomposition = Some \<lparr>theta = pi, phi = 0, lambda = pi\<rparr>,
             controlIndex = None\<rparr>"

definition gate_Z :: gate_instance where
  "gate_Z = \<lparr>gate = ''Z'',
             matrix = Some ((Complex 1 0, Complex 0 0), (Complex 0 0, Complex (- 1) 0)),
             decomposition = Some \<lparr>theta = 0, phi = 0, lambda = pi\<rparr>,
             controlIndex = None\<rparr>"

definition gate_S :: gate_instance where
  "gate_S = \<lparr>gate = ''S'',
             matrix = Some ((Complex 1 0, Complex 0 0), (Complex 0 0, Complex 0 1)),
             decomposition = Some \<lparr>theta = 0, phi = 0, lambda = pi / 2\<rparr>,
             controlIndex = None\<rparr>"

definition gate_U :: "real \<Rightarrow> real \<Rightarrow> real \<Rightarrow> gate_instance" where
  "gate_U t p l = \<lparr>gate = ''U'', matrix = Some (createU3Matrix t p l),
                   decomposition = Some \<lparr>theta = t, phi = p, lambda = l\<rparr>,
                   controlIndex = None\<rparr>"

definition control_marker :: gate_instance where
  "control_marker = \<lparr>gate = ''CONTROL'', matrix = None, decomposition = None, controlIndex = None\<rparr>"

definition controlled_by :: "nat \<Rightarrow> gate_instance \<Rightarrow> gate_instance" where
  "controlled_by c g = g\<lparr>controlIndex := Some c\<rparr>"

definition circuit_CZ :: circuit where
  "circuit_CZ = [[Some gate_H, Some control_marker],
                 [Some gate_X, Some (controlled_by 0 gate_Z)]]"



text \<open>
  A circuit with four control wires: wires 0 to 3 are each rotated by \<open>U(2\<pi>/3, 0, 0)\<close>, so
  that each measures 1 with probability 3/4, and control one phase gate each on wire 4,
  in slots 1 to 4.
\<close>

definition circuit_4 :: circuit where
  "circuit_4 =
     [[Some (gate_U (2 * pi / 3) 0 0), Some control_marker],
      [Some (gate_U (2 * pi / 3) 0 0), None, Some control_marker],
      [Some (gate_U (2 * pi / 3) 0 0), None, None, Some control_marker],
      [Some (gate_U (2 * pi / 3) 0 0), None, None, None, Some control_marker],
      [None,
       Some (controlled_by 0 (gate_U 0 0 (1 / 10))),
       Some (controlled_by 1 (gate_U 0 0 (2 / 10))),
       Some (controlled_by 2 (gate_U 0 0 (4 / 10))),
       Some (controlled_by 3 (gate_U 0 0 (8 / 10)))]]"

text \<open>
  The effective gate list of wire 4 of \<^const>\<open>circuit_4\<close> and the branch that the
  enumeration loop builds there for the control assignment \<open>c\<close>.
\<close>

definition gates_4 :: "slotted_gate list" where
  "gates_4 =
     [withSlot (controlled_by 0 (gate_U 0 0 (1 / 10))) 1,
      withSlot (controlled_by 1 (gate_U 0 0 (2 / 10))) 2,
      withSlot (controlled_by 2 (gate_U 0 0 (4 / 10))) 3,
      withSlot (controlled_by 3 (gate_U 0 0 (8 / 10))) 4]"

definition branch_4 :: "nat \<Rightarrow> branch" where
  "branch_4 c = comboBranch STATE_ZERO gates_4 [0, 1, 2, 3] [3 / 4, 3 / 4, 3 / 4, 3 / 4] c"

section \<open>Basic facts\<close>

lemma cAdd_eq: "cAdd a b = a + b"
  by (simp add: cAdd_def complex_eq_iff)

lemma cSub_eq: "cSub a b = a - b"
  by (simp add: cSub_def complex_eq_iff)

lemma cMul_eq: "cMul a b = a * b"
  by (simp add: cMul_def complex_eq_iff)

lemma cConj_eq: "cConj a = cnj a"
  by (simp add: cConj_def complex_eq_iff)

lemma cAbs_eq: "cAbs a = cmod a"
  by (simp add: cAbs_def cmod_def power2_eq_square)

lemma cScale_eq: "cScale a s = a * of_real s"
  by (simp add: cScale_def complex_eq_iff)

lemma cFromPolar_eq: "cFromPolar r t = of_real r * cis t"
  by (simp add: cFromPolar_def complex_eq_iff)

lemma Complex_real_eq: "Complex r 0 = of_real r"
  by (simp add: complex_eq_iff)

lemma normalize_state_eq:
  "normalize_state (a, b) =
     (if a = 0 \<and> b = 0 then (1, 0)
      else (a / of_real (sqrt ((cmod a)\<^sup>2 + (cmod b)\<^sup>2)),
            b / of_real (sqrt ((cmod a)\<^sup>2 + (cmod b)\<^sup>2))))"
proof -
  have z: "sqrt ((cmod a)\<^sup>2 + (cmod b)\<^sup>2) = 0 \<longleftrightarrow> a = 0 \<and> b = 0"
    by (simp add: sum_power2_eq_zero_iff)
  show ?thesis
    unfolding normalize_state_def Let_def cAbs_eq fst_conv snd_conv z
    by (auto simp: complex_eq_iff Re_divide_of_real Im_divide_of_real)
qed

lemma normalize_state_unit:
  "(cmod (fst (normalize_state s)))\<^sup>2 + (cmod (snd (normalize_state s)))\<^sup>2 = 1"
proof (cases s)
  case (Pair a b)
  show ?thesis
  proof (cases "a = 0 \<and> b = 0")
    case True
    then show ?thesis by (simp add: Pair normalize_state_eq)
  next
    case False
    define n where "n = sqrt ((cmod a)\<^sup>2 + (cmod b)\<^sup>2)"
    have pos: "0 < (cmod a)\<^sup>2 + (cmod b)\<^sup>2"
      using False by (metis sum_power2_gt_zero_iff norm_eq_zero)
    have npos: "0 < n"
      using pos by (simp add: n_def)
    have n2: "n\<^sup>2 = (cmod a)\<^sup>2 + (cmod b)\<^sup>2"
      using pos by (simp add: n_def)
    have n0: "n \<noteq> 0"
      using npos by simp
    have "(cmod (a / of_real n))\<^sup>2 + (cmod (b / of_real n))\<^sup>2
          = ((cmod a)\<^sup>2 + (cmod b)\<^sup>2) / n\<^sup>2"
      using npos by (simp add: norm_divide power_divide add_divide_distrib)
    also have "\<dots> = 1"
      unfolding n2 [symmetric] using n0 by simp
    finally have "(cmod (a / of_real n))\<^sup>2 + (cmod (b / of_real n))\<^sup>2 = 1" .
    moreover have "normalize_state (a, b) = (a / of_real n, b / of_real n)"
      unfolding normalize_state_eq n_def using False by auto
    ultimately show ?thesis
      by (simp add: Pair)
  qed
qed

section \<open>State evolution kernel\<close>

lemma applyMatrix_Some:
  "applyMatrix s (Some m) =
     normalize_state (fst (fst m) * fst s + snd (fst m) * snd s,
                      fst (snd m) * fst s + snd (snd m) * snd s)"
  by (simp add: applyMatrix_def cAdd_eq cMul_eq)



section \<open>Gate model\<close>

lemma createU3Matrix_eq:
  "createU3Matrix t p l =
     ((of_real (cos (t / 2)), - (of_real (sin (t / 2)) * cis (- l))),
      (of_real (sin (t / 2)) * cis p, of_real (cos (t / 2)) * cis (p + l)))"
  by (simp add: createU3Matrix_def cScale_eq cFromPolar_eq Complex_real_eq)

text \<open>
  Claim C8 says that \<^const>\<open>createU3Matrix\<close> is unitary for all angles.  The upper right
  entry is built from \<open>cFromPolar 1 (- lambda)\<close>, so the two rows are orthogonal only when
  \<open>sin theta = 0\<close> or \<open>sin lambda = 0\<close>.  At \<open>theta = \<pi>/2\<close>, \<open>phi = 0\<close>, \<open>lambda = \<pi>/2\<close> the two rows
  are equal, the product with the conjugate transpose has every entry 1, and its upper
  right entry is at distance 1 from the identity's.
\<close>

theorem createU3Matrix_not_unitary:
  "mat_mul (createU3Matrix (pi / 2) 0 (pi / 2)) (conj_transpose (createU3Matrix (pi / 2) 0 (pi / 2)))
     = ((1, 1), (1, 1))
   \<and> cmod (snd (fst (mat_mul (createU3Matrix (pi / 2) 0 (pi / 2))
                               (conj_transpose (createU3Matrix (pi / 2) 0 (pi / 2)))))
            - snd (fst identity2)) = 1"
proof -
  have h: "sqrt 2 * sqrt 2 = 2"
    by simp
  have M: "createU3Matrix (pi / 2) 0 (pi / 2)
           = ((of_real (sqrt 2 / 2), of_real (sqrt 2 / 2) * \<i>),
              (of_real (sqrt 2 / 2), of_real (sqrt 2 / 2) * \<i>))"
    by (simp add: createU3Matrix_eq cos_45 sin_45 cis_pi_half cis_minus_pi_half)
  have P: "mat_mul (createU3Matrix (pi / 2) 0 (pi / 2))
             (conj_transpose (createU3Matrix (pi / 2) 0 (pi / 2))) = ((1, 1), (1, 1))"
    unfolding M
    by (simp add: mat_mul_def conj_transpose_def cAdd_eq cMul_eq cConj_eq complex_eq_iff h)
  show ?thesis
    unfolding P by (simp add: identity2_def Complex_real_eq)
qed

text \<open>
  The catalog itself disagrees with \<^const>\<open>createU3Matrix\<close>: the default decomposition of
  \<open>Y\<close> does not rebuild the default matrix of \<open>Y\<close> (the upper right entry is \<open>\<i>\<close>, not
  \<open>-\<i>\<close>), as it would with the entry \<open>- e^(\<i> lambda) sin (theta / 2)\<close>.
\<close>

lemma createU3Matrix_Y_default:
  "createU3Matrix pi (pi / 2) (pi / 2) = ((0, \<i>), (\<i>, 0))"
  by (simp add: createU3Matrix_eq cis_pi_half cis_minus_pi_half)

lemma catalog_Y_mismatch:
  "\<exists>r. map_of GATES ''Y'' = Some r \<and>
       createU3Matrix (theta (defaultDecomposition r)) (phi (defaultDecomposition r))
         (lambda (defaultDecomposition r)) \<noteq> defaultMatrix r"
  by (simp add: GATES_def createU3Matrix_Y_default complex_eq_iff)

text \<open>
  Claim C10 says that every name outside the catalog yields \<^verbatim>\<open>null\<close>.  The name
  \<^verbatim>\<open>constructor\<close> is not a catalog key, but \<^verbatim>\<open>GATES['constructor']\<close> is the inherited
  \<^verbatim>\<open>Object\<close> function, which passes the guard \<^verbatim>\<open>if (!gateRef) return null\<close>; the call then
  throws on \<^verbatim>\<open>gateRef.defaultMatrix.map\<close>.
\<close>

theorem createGateInstance_inherited_key:
  "createGateInstance ''constructor'' None = Inl TypeError"
  by (simp add: createGateInstance_def GATES_get_def GATES_def Object_prototype_properties_def)

text \<open>The two parts of the claim that do hold.\<close>

lemma createGateInstance_catalog:
  "map_of GATES k = Some r \<Longrightarrow>
   (case createGateInstance k d of
      Inr (Some g) \<Rightarrow> matrix g \<noteq> None \<and> controlIndex g = None
    | _ \<Rightarrow> False)"
  by (simp add: createGateInstance_def GATES_get_def Let_def)

lemma createGateInstance_unknown:
  "map_of GATES k = None \<Longrightarrow> k \<notin> set Object_prototype_properties \<Longrightarrow>
   createGateInstance k d = Inr None"
  by (simp add: createGateInstance_def GATES_get_def)

text \<open>
  Claim C7 says that for each catalog gate the angles extracted from the matrix of its
  default decomposition rebuild that matrix.  For \<open>X\<close> (\<open>theta = \<pi>\<close>, \<open>phi = 0\<close>,
  \<open>lambda = \<pi>\<close>) the extraction returns \<open>lambda = - cPhase b = 0\<close>, without the \<open>\<pi>\<close> that the
  sign of the entry \<open>b\<close> stands for, and the rebuilt matrix has \<open>-1\<close> where the original has
  \<open>1\<close>.
\<close>

theorem extractRotation_roundtrip_fails_X:
  "\<exists>r. map_of GATES ''X'' = Some r \<and>
     (let d = defaultDecomposition r;
          M = createU3Matrix (theta d) (phi d) (lambda d);
          d' = extractRotationFromMatrix (Some M);
          M' = createU3Matrix (theta d') (phi d') (lambda d')
      in d' = \<lparr>theta = pi, phi = 0, lambda = 0\<rparr> \<and> snd (fst M) = 1 \<and> snd (fst M') = - 1)"
proof -
  have M: "createU3Matrix pi 0 pi = ((0, 1), (1, 0))"
    by (simp add: createU3Matrix_eq complex_eq_iff)
  have E: "extractRotationFromMatrix (Some ((0, 1), (1, 0))) = \<lparr>theta = pi, phi = 0, lambda = 0\<rparr>"
    by (simp add: extractRotationFromMatrix_def cAbs_eq cPhase_def atan2_def)
  have M': "createU3Matrix pi 0 0 = ((0, - 1), (1, 0))"
    by (simp add: createU3Matrix_eq)
  show ?thesis
    by (simp add: GATES_def M E M')
qed


section \<open>Joint distribution aggregator\<close>

lemma js_bit_small:
  "x < 2 ^ 32 \<Longrightarrow> s < 32 \<Longrightarrow> js_bit x s = (x div 2 ^ s) mod 2"
  by (simp add: js_bit_def)

lemma js_bit_le1: "js_bit x s = 0 \<or> js_bit x s = 1"
  unfolding js_bit_def by presburger

lemma foldl_prob_label:
  "foldl (\<lambda>(p, l) q. (p * f q, l @ [c q])) (p0, l0) xs
     = (p0 * prod_list (map f xs), l0 @ map c xs)"
  by (induction xs arbitrary: p0 l0) (simp_all add: mult.assoc)

lemma basisOutcome_eq:
  "basisOutcome qs i =
     (prod_list (map (\<lambda>q. if js_bit i (length qs - 1 - q) = 0
                            then prob0 (getProbabilities (qs ! q))
                            else prob1 (getProbabilities (qs ! q))) [0..<length qs]),
      map (\<lambda>q. if js_bit i (length qs - 1 - q) = 0 then CHR ''0'' else CHR ''1'') [0..<length qs])"
proof -
  have "basisOutcome qs i =
        foldl (\<lambda>(p, l) q. (p * (if js_bit i (length qs - 1 - q) = 0
                            then prob0 (getProbabilities (qs ! q))
                            else prob1 (getProbabilities (qs ! q))),
                          l @ [if js_bit i (length qs - 1 - q) = 0 then CHR ''0'' else CHR ''1'']))
              (1, []) [0..<length qs]"
    unfolding basisOutcome_def Let_def
    by (rule arg_cong [where f = "\<lambda>h. foldl h (1, []) [0..<length qs]"]) (auto simp: fun_eq_iff)
  then show ?thesis
    by (simp add: foldl_prob_label)
qed

lemma nat_eq_of_bits:
  fixes i j :: nat
  assumes "i < 2 ^ n" "j < 2 ^ n"
    and "\<And>k. k < n \<Longrightarrow> (i div 2 ^ k) mod 2 = (j div 2 ^ k) mod 2"
  shows "i = j"
proof (rule bit_eqI)
  fix k
  show "bit i k \<longleftrightarrow> bit j k"
  proof (cases "k < n")
    case True
    with assms(3) [of k] show ?thesis
      by (simp add: bit_iff_odd odd_iff_mod_2_eq_one)
  next
    case False
    then have "(2::nat) ^ n \<le> 2 ^ k"
      by simp
    with assms(1,2) have "i < 2 ^ k" "j < 2 ^ k"
      by linarith+
    then have "i div 2 ^ k = 0" "j div 2 ^ k = 0"
      by simp_all
    then show ?thesis
      by (simp add: bit_iff_odd)
  qed
qed

lemma label_inj:
  assumes n: "n \<le> 32"
  shows "inj_on (\<lambda>i. map (\<lambda>q. if js_bit i (n - 1 - q) = 0 then CHR ''0'' else CHR ''1'') [0..<n])
           {..<2 ^ n}"
proof (rule inj_onI)
  fix i j :: nat
  assume i: "i \<in> {..<2 ^ n}" and j: "j \<in> {..<2 ^ n}"
    and eq: "map (\<lambda>q. if js_bit i (n - 1 - q) = 0 then CHR ''0'' else CHR ''1'') [0..<n]
           = map (\<lambda>q. if js_bit j (n - 1 - q) = 0 then CHR ''0'' else CHR ''1'') [0..<n]"
  have le: "(2::nat) ^ n \<le> 2 ^ 32"
    using n by (intro power_increasing) simp_all
  have i32: "i < 2 ^ 32" and j32: "j < 2 ^ 32"
    using i j le by auto
  have bits: "js_bit i (n - 1 - q) = js_bit j (n - 1 - q)" if "q < n" for q
  proof -
    from eq that have "(if js_bit i (n - 1 - q) = 0 then CHR ''0'' else CHR ''1'')
                     = (if js_bit j (n - 1 - q) = 0 then CHR ''0'' else CHR ''1'')"
      by (simp add: list_eq_iff_nth_eq)
    then show ?thesis
      using js_bit_le1 [of i "n - 1 - q"] js_bit_le1 [of j "n - 1 - q"]
      by (auto split: if_splits)
  qed
  show "i = j"
  proof (rule nat_eq_of_bits [where n = n])
    show "i < 2 ^ n" "j < 2 ^ n"
      using i j by auto
  next
    fix k
    assume k: "k < n"
    then have "js_bit i (n - 1 - (n - 1 - k)) = js_bit j (n - 1 - (n - 1 - k))"
      by (intro bits) simp
    moreover have "n - 1 - (n - 1 - k) = k"
      using k by simp
    ultimately show "(i div 2 ^ k) mod 2 = (j div 2 ^ k) mod 2"
      using i32 j32 k n by (simp add: js_bit_small)
  qed
qed

lemma sorted_desc:
  "sorted_wrt (\<ge>) (map snd (sort_key (\<lambda>e. - snd e) (xs :: ('a \<times> real) list)))"
proof -
  have "sorted (map (\<lambda>e. - snd e) (sort_key (\<lambda>e. - snd e) xs))"
    by (rule sorted_sort_key)
  then show ?thesis
    by (simp add: sorted_wrt_map)
qed

lemma unsorted_joint:
  "concat (map (\<lambda>i. let (prob, stateLabel) = basisOutcome qs i in
                     if True \<or> prob > 0.001 then [(stateLabel, prob)] else []) [0..<2 ^ length qs])
   = map (\<lambda>i. (snd (basisOutcome qs i), fst (basisOutcome qs i))) [0..<2 ^ length qs]"
  by (simp add: case_prod_beta Let_def)


lemma prob_STATE_ZERO:
  "prob0 (getProbabilities STATE_ZERO) = 1" "prob1 (getProbabilities STATE_ZERO) = 0"
  by (simp_all add: getProbabilities_def STATE_ZERO_def cAbs_def)

lemma prod_list_indicator:
  "prod_list (map (\<lambda>q. if P q then (1::real) else 0) xs) = (if \<forall>q\<in>set xs. P q then 1 else 0)"
  by (induction xs) auto

text \<open>
  Claim C9.  For a list of \<open>n\<close> single-wire states, \<^const>\<open>getMultiQubitProbabilities\<close> with
  zero-probability entries included returns \<open>2^n\<close> entries, one for each string of \<open>n\<close>
  characters 0 and 1; the probability of an entry is the product over the wires of that
  wire's probability of 0 or of 1, as the character of the string at the wire's position
  says; the entries are in descending order of probability; and when every wire is in
  state \<open>|0>\<close> the all-zero string has probability 1 and every other string 0.  The
  bit tests \<^verbatim>\<open>(i >> k) & 1\<close> work on 32-bit integers, hence \<open>n \<le> 32\<close>; a result for more
  wires would need more than \<open>2^32\<close> array entries.
\<close>

theorem getMultiQubitProbabilities_joint:
  assumes n: "length qs \<le> 32"
  shows "length (getMultiQubitProbabilities qs True) = 2 ^ length qs
    \<and> distinct (map fst (getMultiQubitProbabilities qs True))
    \<and> set (map fst (getMultiQubitProbabilities qs True))
        = {l. set l \<subseteq> {CHR ''0'', CHR ''1''} \<and> length l = length qs}
    \<and> (\<forall>e\<in>set (getMultiQubitProbabilities qs True).
          snd e = (\<Prod>q<length qs. if fst e ! q = CHR ''0''
                                     then prob0 (getProbabilities (qs ! q))
                                     else prob1 (getProbabilities (qs ! q))))
    \<and> sorted_wrt (\<ge>) (map snd (getMultiQubitProbabilities qs True))
    \<and> ((\<forall>s\<in>set qs. s = STATE_ZERO) \<longrightarrow>
         (\<forall>e\<in>set (getMultiQubitProbabilities qs True).
            snd e = (if fst e = replicate (length qs) (CHR ''0'') then 1 else 0)))"
proof -
  define m where "m = length qs"
  define lab where
    "lab = (\<lambda>i. map (\<lambda>q. if js_bit i (m - 1 - q) = 0 then CHR ''0'' else CHR ''1'') [0..<m])"
  define pr where
    "pr = (\<lambda>i. prod_list (map (\<lambda>q. if js_bit i (m - 1 - q) = 0
                                     then prob0 (getProbabilities (qs ! q))
                                     else prob1 (getProbabilities (qs ! q))) [0..<m]))"
  define R where "R = getMultiQubitProbabilities qs True"
  have out: "basisOutcome qs i = (pr i, lab i)" for i
    by (simp add: basisOutcome_eq pr_def lab_def m_def)
  have R: "R = sort_key (\<lambda>e. - snd e) (map (\<lambda>i. (lab i, pr i)) [0..<2 ^ m])"
    unfolding R_def getMultiQubitProbabilities_def unsorted_joint by (simp add: out m_def)
  have setR: "set R = (\<lambda>i. (lab i, pr i)) ` {..<2 ^ m}"
    unfolding R by (simp add: atLeast0LessThan)
  have len: "length R = 2 ^ m"
    unfolding R by simp
  have inj: "inj_on lab {..<2 ^ m}"
    unfolding lab_def using n by (intro label_inj) (simp add: m_def)
  have "mset (map fst R) = mset (map lab [0..<2 ^ m])"
    unfolding R by (simp add: image_mset.compositionality comp_def)
  moreover have "distinct (map lab [0..<2 ^ m])"
    using inj by (simp add: distinct_map atLeast0LessThan)
  ultimately have dist: "distinct (map fst R)"
    by (metis mset_eq_imp_distinct_iff)
  have sub: "lab ` {..<2 ^ m} \<subseteq> {l. set l \<subseteq> {CHR ''0'', CHR ''1''} \<and> length l = m}"
    by (auto simp: lab_def)
  have fin: "finite {l. set l \<subseteq> {CHR ''0'', CHR ''1''} \<and> length l = m}"
    by (rule finite_lists_length_eq) simp
  have "card {l. set l \<subseteq> {CHR ''0'', CHR ''1''} \<and> length l = m} = 2 ^ m"
    by (simp add: card_lists_length_eq numeral_2_eq_2 [symmetric])
  moreover have "card (lab ` {..<2 ^ m}) = 2 ^ m"
    using inj by (simp add: card_image)
  ultimately have labs: "lab ` {..<2 ^ m} = {l. set l \<subseteq> {CHR ''0'', CHR ''1''} \<and> length l = m}"
    using sub fin by (intro card_subset_eq) simp_all
  have setfst: "set (map fst R) = {l. set l \<subseteq> {CHR ''0'', CHR ''1''} \<and> length l = m}"
    using labs by (simp add: setR image_image)
  have prodlab: "pr i = (\<Prod>q<m. if lab i ! q = CHR ''0''
                                     then prob0 (getProbabilities (qs ! q))
                                     else prob1 (getProbabilities (qs ! q)))" for i
  proof -
    have "pr i = prod_list (map (\<lambda>q. if lab i ! q = CHR ''0''
                                     then prob0 (getProbabilities (qs ! q))
                                     else prob1 (getProbabilities (qs ! q))) [0..<m])"
      unfolding pr_def by (rule arg_cong [where f = prod_list]) (simp add: lab_def)
    also have "\<dots> = (\<Prod>q\<in>set [0..<m]. if lab i ! q = CHR ''0''
                                     then prob0 (getProbabilities (qs ! q))
                                     else prob1 (getProbabilities (qs ! q)))"
      by (rule prod.distinct_set_conv_list [symmetric]) simp
    finally show ?thesis
      by (simp add: atLeast0LessThan)
  qed
  have probs: "\<forall>e\<in>set R. snd e = (\<Prod>q<m. if fst e ! q = CHR ''0''
                                     then prob0 (getProbabilities (qs ! q))
                                     else prob1 (getProbabilities (qs ! q)))"
    using prodlab by (auto simp: setR)
  have sorted: "sorted_wrt (\<ge>) (map snd R)"
    unfolding R by (rule sorted_desc)
  have zero: "\<forall>e\<in>set R. snd e = (if fst e = replicate m (CHR ''0'') then 1 else 0)"
    if z: "\<forall>s\<in>set qs. s = STATE_ZERO"
  proof
    fix e
    assume "e \<in> set R"
    then obtain i where e: "e = (lab i, pr i)"
      by (auto simp: setR)
    have qz: "qs ! q = STATE_ZERO" if "q < m" for q
      using z that by (simp add: m_def)
    have "pr i = prod_list (map (\<lambda>q. if lab i ! q = CHR ''0'' then (1::real) else 0) [0..<m])"
      unfolding pr_def
      by (rule arg_cong [where f = prod_list]) (simp add: lab_def qz prob_STATE_ZERO)
    also have "\<dots> = (if \<forall>q\<in>set [0..<m]. lab i ! q = CHR ''0'' then 1 else 0)"
      by (rule prod_list_indicator)
    also have "(\<forall>q\<in>set [0..<m]. lab i ! q = CHR ''0'') \<longleftrightarrow> lab i = replicate m (CHR ''0'')"
      by (auto simp: list_eq_iff_nth_eq lab_def)
    finally show "snd e = (if fst e = replicate m (CHR ''0'') then 1 else 0)"
      by (simp add: e)
  qed
  show ?thesis
    using len dist setfst probs sorted zero unfolding R_def m_def by blast
qed

theorem getMultiQubitProbabilities_joint_witness:
  "length (getMultiQubitProbabilities [STATE_ZERO, STATE_ZERO] True) = 4
   \<and> (\<exists>e\<in>set (getMultiQubitProbabilities [STATE_ZERO, STATE_ZERO] True). e = (''00'', 1))
   \<and> (\<exists>e\<in>set (getMultiQubitProbabilities [STATE_ZERO, STATE_ZERO] True). e = (''10'', 0))"
proof -
  have h: "length [STATE_ZERO, STATE_ZERO] \<le> 32"
    by simp
  have z: "\<forall>s\<in>set [STATE_ZERO, STATE_ZERO]. s = STATE_ZERO"
    by simp
  note t = getMultiQubitProbabilities_joint [OF h]
  have l: "length (getMultiQubitProbabilities [STATE_ZERO, STATE_ZERO] True) = 4"
    using t by simp
  have "set (map fst (getMultiQubitProbabilities [STATE_ZERO, STATE_ZERO] True))
        = {l. set l \<subseteq> {CHR ''0'', CHR ''1''} \<and> length l = length [STATE_ZERO, STATE_ZERO]}"
    using t by blast
  then have s: "set (map fst (getMultiQubitProbabilities [STATE_ZERO, STATE_ZERO] True))
        = {l. set l \<subseteq> {CHR ''0'', CHR ''1''} \<and> length l = Suc (Suc 0)}"
    by simp
  have "\<forall>e\<in>set (getMultiQubitProbabilities [STATE_ZERO, STATE_ZERO] True).
            snd e = (if fst e = replicate (length [STATE_ZERO, STATE_ZERO]) (CHR ''0'') then 1 else 0)"
    using t z by blast
  then have v: "\<forall>e\<in>set (getMultiQubitProbabilities [STATE_ZERO, STATE_ZERO] True).
            snd e = (if fst e = ''00'' then 1 else 0)"
    by simp
  have "''00'' \<in> set (map fst (getMultiQubitProbabilities [STATE_ZERO, STATE_ZERO] True))"
    unfolding s by simp
  then obtain e0 where e0: "e0 \<in> set (getMultiQubitProbabilities [STATE_ZERO, STATE_ZERO] True)"
      "fst e0 = ''00''"
    by auto
  have "''10'' \<in> set (map fst (getMultiQubitProbabilities [STATE_ZERO, STATE_ZERO] True))"
    unfolding s by simp
  then obtain e1 where e1: "e1 \<in> set (getMultiQubitProbabilities [STATE_ZERO, STATE_ZERO] True)"
      "fst e1 = ''10''"
    by auto
  have "e0 = (''00'', 1)" "e1 = (''10'', 0)"
    using v e0 e1 by (auto simp: prod_eq_iff)
  with e0 e1 l show ?thesis
    by blast
qed

section \<open>Eigenphase and kickback detector\<close>

lemma atan2_bounds: "- pi < atan2 y x \<and> atan2 y x \<le> pi"
proof -
  have lb: "- (pi / 2) < arctan (y / x)" and ub: "arctan (y / x) < pi / 2"
    by (rule arctan_lbound, rule arctan_ubound)
  have neg: "arctan (y / x) \<le> 0" if "x < 0" "0 \<le> y"
  proof -
    have "y / x \<le> 0"
      using that by (simp add: divide_nonneg_neg)
    then have "arctan (y / x) \<le> arctan 0"
      by (simp only: arctan_le_iff)
    then show ?thesis by simp
  qed
  have pos: "0 < arctan (y / x)" if "x < 0" "y < 0"
  proof -
    have "0 < y / x"
      using that by (simp add: divide_neg_neg)
    then have "arctan 0 < arctan (y / x)"
      by (simp only: arctan_less_iff)
    then show ?thesis by simp
  qed
  show ?thesis
    unfolding atan2_def using lb ub neg pos pi_gt_zero
    by (auto simp: not_less not_le)
qed

lemma normalizeAngle_id: "- pi \<le> a \<Longrightarrow> a \<le> pi \<Longrightarrow> normalizeAngle a = a"
proof -
  assume a: "- pi \<le> a" "a \<le> pi"
  have d: "normalizeAngle_down a = a"
    using a by (subst normalizeAngle_down.simps) simp
  have u: "normalizeAngle_up a = a"
    using a by (subst normalizeAngle_up.simps) simp
  show ?thesis
    by (simp add: normalizeAngle_def d u)
qed

lemma complexDiv_eq:
  assumes "1 / 100 < cmod b"
  shows "complexDiv a b = a / b"
proof -
  have "(1 / 100)\<^sup>2 < (cmod b)\<^sup>2"
    using assms by (intro power_strict_mono) simp_all
  moreover have "Re b * Re b + Im b * Im b = (cmod b)\<^sup>2"
    unfolding cmod_power2 by (simp add: power2_eq_square)
  moreover have "(1 / 10 ^ 12 :: real) \<le> (1 / 100)\<^sup>2"
    by (simp add: power2_eq_square)
  ultimately have den: "\<not> Re b * Re b + Im b * Im b < 1 / 10 ^ 12"
    by linarith
  show ?thesis
    unfolding complexDiv_def Let_def using den
    by (simp add: complex_eq_iff Re_divide Im_divide power2_eq_square)
qed

lemma cScale_unit: "cScale z (1 / cAbs z) = sgn z"
  by (simp add: cScale_eq cAbs_eq sgn_eq)

lemma findIndex_two:
  "findIndex P [a, b] = (if P a then Some 0 else if P b then Some 1 else None)"
  by simp


lemma findIndex_Some:
  "findIndex P xs = Some r \<Longrightarrow> r < length xs \<and> P (xs ! r) \<and> (\<forall>j<r. \<not> P (xs ! j))"
proof (induction xs arbitrary: r)
  case Nil
  then show ?case by simp
next
  case (Cons x xs)
  show ?case
  proof (cases "P x")
    case True
    with Cons.prems show ?thesis by simp
  next
    case False
    with Cons.prems obtain r' where r': "findIndex P xs = Some r'" "r = Suc r'"
      by auto
    from Cons.IH [OF r'(1)] False r'(2) show ?thesis
      by (auto simp: less_Suc_eq_0_disj)
  qed
qed

lemma upt_two: "[0..<length (amplitudes st)] = [0, Suc 0]"
  by (simp add: amplitudes_def)

lemma kickback_unfold:
  assumes g: "gate g \<noteq> ''BARRIER''" "gate g \<noteq> ''CONTROL''" "matrix g = Some m"
    and r: "findIndex (\<lambda>amp. cAbs amp > 1 / 100) (amplitudes st) = Some r"
    and ev: "ev = amplitudes (applyMatrix st (Some m))"
    and ratio: "ratio = sgn (ev ! r / amplitudes st ! r)"
  shows "getKickbackPhaseForControlledGate (Some g) (Some st) (1 / 100) =
     (if cmod (ev ! r / amplitudes st ! r) \<le> 1 / 100 then None
      else if \<exists>i<2. cmod (ev ! i - ratio * amplitudes st ! i) > 2 / 100 then None
      else Some (if \<bar>cPhase ratio\<bar> > 1 / 100 then cPhase ratio else 0))"
proof -
  from findIndex_Some [OF r] have big: "1 / 100 < cmod (amplitudes st ! r)"
    by (simp add: cAbs_eq)
  define raw where "raw = ev ! r / amplitudes st ! r"
  have cd: "complexDiv (ev ! r) (amplitudes st ! r) = raw"
    by (simp only: complexDiv_eq [OF big] raw_def)
  have cs: "cScale raw (1 / cAbs raw) = ratio"
    by (simp only: cScale_unit ratio raw_def)
  have ex2: "(\<exists>i<2. Q i) \<longleftrightarrow> Q 0 \<or> Q (Suc 0)" for Q :: "nat \<Rightarrow> bool"
    by (auto simp: less_2_cases_iff)
  have ph: "normalizeAngle (cPhase ratio) = cPhase ratio"
    using atan2_bounds [of "Im ratio" "Re ratio"] by (intro normalizeAngle_id) (simp_all add: cPhase_def)
  have d: "cAbs (cSub x (cMul ratio y)) = cmod (x - ratio * y)" for x y
    by (simp only: cAbs_eq cSub_eq cMul_eq)
  have "getKickbackPhaseForControlledGate (Some g) (Some st) (1 / 100) =
     (if cAbs raw \<le> 1 / 100 then None
      else if \<exists>i<2. cmod (ev ! i - ratio * amplitudes st ! i) > 2 / 100 then None
      else Some (if \<bar>cPhase ratio\<bar> > 1 / 100 then cPhase ratio else 0))"
    unfolding getKickbackPhaseForControlledGate_def
    using g r
    by (simp add: Let_def cd cs upt_two ex2 ph d ev [symmetric])
  then show ?thesis
    by (simp only: raw_def cAbs_eq)
qed




section \<open>Frames and the ordered gate list\<close>

lemma slot_withSlot: "slot (withSlot g s) = s"
  by (simp add: withSlot_def)

lemma gate_withSlot: "gate (withSlot g s) = gate g"
  by (simp add: withSlot_def)

lemma cells_set:
  "set (concat (map (\<lambda>(s, cell). case cell of None \<Rightarrow> [] | Some g \<Rightarrow> [withSlot g s])
                    (enumerate n row)))
   = {withSlot g (n + i) | i g. i < length row \<and> row ! i = Some g}"
proof (induction row arbitrary: n)
  case Nil
  then show ?case by simp
next
  case (Cons c row)
  have split: "{withSlot g (n + i) | i g. i < length (c # row) \<and> (c # row) ! i = Some g}
      = {withSlot g n | g. c = Some g}
        \<union> {withSlot g (Suc n + i) | i g. i < length row \<and> row ! i = Some g}"
    (is "?L = ?A \<union> ?B")
  proof (intro set_eqI iffI)
    fix e
    assume "e \<in> ?L"
    then obtain i g where e: "e = withSlot g (n + i)" "i < length (c # row)" "(c # row) ! i = Some g"
      by blast
    show "e \<in> ?A \<union> ?B"
    proof (cases i)
      case 0
      with e show ?thesis by simp
    next
      case (Suc j)
      with e have "e = withSlot g (Suc n + j)" "j < length row" "row ! j = Some g"
        by simp_all
      then show ?thesis by blast
    qed
  next
    fix e
    assume "e \<in> ?A \<union> ?B"
    then show "e \<in> ?L"
    proof
      assume "e \<in> ?A"
      then obtain g where "e = withSlot g (n + 0)" "0 < length (c # row)" "(c # row) ! 0 = Some g"
        by auto
      then show ?thesis by blast
    next
      assume "e \<in> ?B"
      then obtain j g where "e = withSlot g (n + Suc j)" "Suc j < length (c # row)"
          "(c # row) ! (Suc j) = Some g"
        by auto
      then show ?thesis by blast
    qed
  qed
  let ?F = "\<lambda>(s, cell). case cell of None \<Rightarrow> [] | Some g \<Rightarrow> [withSlot g s]"
  have "concat (map ?F (enumerate n (c # row)))
        = ?F (n, c) @ concat (map ?F (enumerate (Suc n) row))"
    by simp
  then have "set (concat (map ?F (enumerate n (c # row))))
        = set (?F (n, c)) \<union> set (concat (map ?F (enumerate (Suc n) row)))"
    by (simp only: set_append)
  also have "set (concat (map ?F (enumerate (Suc n) row))) = ?B"
    by (rule Cons.IH)
  also have "set (?F (n, c)) = ?A"
    by (cases c) auto
  finally show ?case
    by (simp only: split)
qed

lemma cells_sorted:
  "sorted_wrt (\<lambda>a b. slot a < slot b)
     (concat (map (\<lambda>(s, cell). case cell of None \<Rightarrow> [] | Some g \<Rightarrow> [withSlot g s])
                  (enumerate n row)))"
proof (induction row arbitrary: n)
  case Nil
  then show ?case by simp
next
  case (Cons c row)
  have later: "n < slot e"
    if "e \<in> set (concat (map (\<lambda>(s, cell). case cell of None \<Rightarrow> [] | Some g \<Rightarrow> [withSlot g s])
                               (enumerate (Suc n) row)))" for e
    using that unfolding cells_set by (auto simp: slot_withSlot)
  show ?case
    using later by (cases c) (simp_all add: Cons.IH slot_withSlot)
qed

lemma strict_sorted_imp_sorted:
  "sorted_wrt (\<lambda>a b. slot a < slot b) xs \<Longrightarrow> sorted (map slot xs)"
  by (simp add: sorted_wrt_map) (erule sorted_wrt_mono_rel [rotated], simp)


lemma getOrderedGates_cases:
  "getOrderedGates circuits barriers q f =
     (let cells = concat (map (\<lambda>(s, cell). case cell of None \<Rightarrow> [] | Some g \<Rightarrow> [withSlot g s])
                    (enumerate 0 (if q < length circuits then circuits ! q else [])))
      in if f = 0 then []
         else if f > int (length barriers) then cells
         else if f < 0 then cells
         else filter (\<lambda>e. slot e < sort barriers ! nat (f - 1)) cells)"
proof -
  have id: "sort_key slot
              (concat (map (\<lambda>(s, cell). case cell of None \<Rightarrow> [] | Some g \<Rightarrow> [withSlot g s])
                 (enumerate 0 row)))
            = concat (map (\<lambda>(s, cell). case cell of None \<Rightarrow> [] | Some g \<Rightarrow> [withSlot g s])
                 (enumerate 0 row))" for row
    by (intro sort_key_id_if_sorted strict_sorted_imp_sorted cells_sorted)
  show ?thesis
    unfolding getOrderedGates_def Let_def id js_index_def by auto
qed




text \<open>A control marker is part of the selected list.\<close>

lemma getOrderedGates_example:
  "map (\<lambda>e. (gate e, slot e))
     (getOrderedGates
        [[Some \<lparr>gate = ''H'', matrix = None, decomposition = None, controlIndex = None\<rparr>,
          Some \<lparr>gate = ''CONTROL'', matrix = None, decomposition = None, controlIndex = None\<rparr>,
          None,
          Some \<lparr>gate = ''Z'', matrix = None, decomposition = None, controlIndex = None\<rparr>]]
        [2] 0 1) = [(''H'', 0), (''CONTROL'', 1)]"
  by (simp add: getOrderedGates_cases enumerate_eq_zip upt_rec withSlot_def)

section \<open>Branch enumeration, merging and emission\<close>

subsection \<open>The enumeration loop\<close>

lemma enumerateBranches_char:
  "length bs \<le> 10 \<Longrightarrow>
   enumerateBranches init gates uc cps combo bs =
     bs @ map (comboBranch init gates uc cps)
            (take (10 - length bs)
               (filter (\<lambda>c. \<not> comboProbability cps c < 0.01) [combo..<2 ^ length uc]))"
proof (induction init gates uc cps combo bs rule: enumerateBranches.induct)
  case (1 init gates uc cps combo bs)
  show ?case
  proof (cases "combo < 2 ^ length uc \<and> length bs < 10")
    case False
    then have "combo \<ge> 2 ^ length uc \<or> length bs = 10"
      using "1.prems" by auto
    then show ?thesis
      using False by (subst enumerateBranches.simps) auto
  next
    case True
    then have upt: "[combo..<2 ^ length uc] = combo # [combo + 1..<2 ^ length uc]"
      by (simp add: upt_conv_Cons)
    show ?thesis
    proof (cases "comboProbability cps combo < 0.01")
      case low: True
      from "1.IH"(1) [OF True low "1.prems"] True low show ?thesis
        by (subst enumerateBranches.simps) (simp add: upt)
    next
      case acc: False
      have len: "length (bs @ [comboBranch init gates uc cps combo]) \<le> 10"
        using True by simp
      have tk: "take (10 - length bs) (combo # xs) = combo # take (10 - length bs - 1) xs" for xs
        using True by (cases "10 - length bs") simp_all
      from "1.IH"(2) [OF True acc len] True acc show ?thesis
        by (subst enumerateBranches.simps) (simp add: upt tk)
    qed
  qed
qed

lemma rawBranches_char:
  "rawBranches sc init gates =
     map (comboBranch init gates (uniqueControlsOf gates) (controlProbsOf sc init gates))
       (take 10 (filter (\<lambda>c. \<not> comboProbability (controlProbsOf sc init gates) c < 0.01)
                  [0..<2 ^ length (uniqueControlsOf gates)]))"
  unfolding rawBranches_def by (subst enumerateBranches_char) simp_all

lemma length_rawBranches:
  "length (rawBranches sc init gates) \<le> min (2 ^ length (uniqueControlsOf gates)) 10"
proof -
  have "length (filter P [0..<n]) \<le> n" for P and n :: nat
    using length_filter_le [of P "[0..<n]"] by simp
  then show ?thesis
    unfolding rawBranches_char by (simp add: min_le_iff_disj)
qed

subsection \<open>The merge loop\<close>

lemma length_mergeBranches:
  "length (mergeBranches bs ms) \<le> length bs + length ms"
proof (induction bs arbitrary: ms)
  case Nil
  then show ?case by simp
next
  case (Cons b bs)
  show ?case
  proof (cases "findIndex (\<lambda>e. coordsEqual (coords e) (coords b) \<and>
                          phasesEqual (rotations e) (rotations b)) ms")
    case None
    then show ?thesis
      using Cons.IH [of "ms @ [b]"] by simp
  next
    case (Some i)
    then show ?thesis
      using Cons.IH [of "ms[i := (ms ! i)\<lparr>probability := probability (ms ! i) + probability b\<rparr>]"]
      by simp
  qed
qed

lemma length_mergeBranches_ge: "length ms \<le> length (mergeBranches bs ms)"
proof (induction bs arbitrary: ms)
  case Nil
  then show ?case by simp
next
  case (Cons b bs)
  show ?case
  proof (cases "findIndex (\<lambda>e. coordsEqual (coords e) (coords b) \<and>
                          phasesEqual (rotations e) (rotations b)) ms")
    case None
    then show ?thesis
      using Cons.IH [of "ms @ [b]"] by simp
  next
    case (Some i)
    then show ?thesis
      using Cons.IH [of "ms[i := (ms ! i)\<lparr>probability := probability (ms ! i) + probability b\<rparr>]"]
      by simp
  qed
qed

lemma mergeBranches_Nil_iff: "mergeBranches bs [] = [] \<longleftrightarrow> bs = []"
proof (cases bs)
  case Nil
  then show ?thesis by simp
next
  case (Cons b bs')
  have "1 \<le> length (mergeBranches bs' [b])"
    using length_mergeBranches_ge [of "[b]" bs'] by simp
  then show ?thesis
    using Cons by auto
qed

lemma sum_list_update_probability:
  "i < length ms \<Longrightarrow>
   sum_list (map probability (ms[i := (ms ! i)\<lparr>probability := probability (ms ! i) + p\<rparr>]))
     = sum_list (map probability ms) + p"
proof (induction ms arbitrary: i)
  case Nil
  then show ?case by simp
next
  case (Cons m ms)
  then show ?case by (cases i) simp_all
qed

lemma sum_mergeBranches:
  "sum_list (map probability (mergeBranches bs ms))
     = sum_list (map probability bs) + sum_list (map probability ms)"
proof (induction bs arbitrary: ms)
  case Nil
  then show ?case by simp
next
  case (Cons b bs)
  show ?case
  proof (cases "findIndex (\<lambda>e. coordsEqual (coords e) (coords b) \<and>
                          phasesEqual (rotations e) (rotations b)) ms")
    case None
    then show ?thesis
      by (simp add: Cons.IH)
  next
    case (Some i)
    then have "i < length ms"
      by (auto dest: findIndex_Some)
    then show ?thesis
      using Some by (simp add: Cons.IH sum_list_update_probability)
  qed
qed

subsection \<open>Probabilities of the control assignments\<close>

lemma foldl_mult:
  "foldl (\<lambda>p i. p * f i) (a::real) xs = a * prod_list (map f xs)"
  by (induction xs arbitrary: a) (simp_all add: mult.assoc)

lemma comboProbability_eq:
  "comboProbability cps c =
     prod_list (map (\<lambda>i. if js_bit c i = 1 then cps ! i else 1 - cps ! i) [0..<length cps])"
  by (simp add: comboProbability_def foldl_mult)

lemma prod_list_nonneg:
  "(\<And>x. x \<in> set xs \<Longrightarrow> 0 \<le> f x) \<Longrightarrow> (0::real) \<le> prod_list (map f xs)"
  by (induction xs) simp_all

lemma comboProbability_nonneg:
  assumes "\<forall>p\<in>set cps. 0 \<le> p \<and> p \<le> 1"
  shows "0 \<le> comboProbability cps c"
  unfolding comboProbability_eq using assms by (intro prod_list_nonneg) auto

text \<open>Below \<open>2^32\<close> and for bit positions below 32 the bit test is the usual one.\<close>

lemma js_bit_low:
  assumes "k \<le> 32" "i < k" "c < 2 ^ k"
  shows "js_bit c i = (c div 2 ^ i) mod 2"
proof -
  have "(2::nat) ^ k \<le> 2 ^ 32"
    using assms(1) by (intro power_increasing) simp_all
  with assms show ?thesis
    by (intro js_bit_small) simp_all
qed

lemma bit_of_high_half:
  fixes c :: nat
  assumes "i < k"
  shows "((c + 2 ^ k) div 2 ^ i) mod 2 = (c div 2 ^ i) mod 2"
proof -
  have "(2::nat) ^ k = 2 ^ i * 2 ^ (k - i)"
    using assms by (simp add: power_add [symmetric])
  then have "(c + 2 ^ k) div 2 ^ i = c div 2 ^ i + 2 ^ (k - i)"
    by simp
  moreover have "even ((2::nat) ^ (k - i))"
    using assms by simp
  ultimately show ?thesis
    by (simp add: mod_2_eq_odd)
qed

lemma sum_bit_products:
  fixes g :: "nat \<Rightarrow> nat \<Rightarrow> real"
  shows "(\<Sum>c = 0..<2 ^ k. \<Prod>i = 0..<k. g i ((c div 2 ^ i) mod 2)) = (\<Prod>i = 0..<k. g i 0 + g i 1)"
proof (induction k)
  case 0
  then show ?case by simp
next
  case (Suc k)
  let ?h = "\<lambda>c. \<Prod>i = 0..<k. g i ((c div 2 ^ i) mod 2)"
  have low: "(\<Prod>i = 0..<Suc k. g i ((c div 2 ^ i) mod 2)) = ?h c * g k 0" if "c < 2 ^ k" for c
    using that by simp
  have high: "(\<Prod>i = 0..<Suc k. g i (((c + 2 ^ k) div 2 ^ i) mod 2)) = ?h c * g k 1"
    if "c < 2 ^ k" for c
  proof -
    have "(\<Prod>i = 0..<k. g i (((c + 2 ^ k) div 2 ^ i) mod 2)) = ?h c"
      by (intro prod.cong refl) (simp add: bit_of_high_half)
    moreover have "((c + 2 ^ k) div 2 ^ k) mod 2 = 1"
      using that by simp
    ultimately show ?thesis
      by simp
  qed
  have "(\<Sum>c = 0..<2 ^ Suc k. \<Prod>i = 0..<Suc k. g i ((c div 2 ^ i) mod 2))
      = (\<Sum>c = 0..<2 ^ k + 2 ^ k. \<Prod>i = 0..<Suc k. g i ((c div 2 ^ i) mod 2))"
    by (simp only: power_Suc mult_2)
  also have "\<dots> = (\<Sum>c = 0..<2 ^ k. \<Prod>i = 0..<Suc k. g i ((c div 2 ^ i) mod 2))
        + (\<Sum>c = 2 ^ k..<2 ^ k + 2 ^ k. \<Prod>i = 0..<Suc k. g i ((c div 2 ^ i) mod 2))"
    by (rule sum.atLeastLessThan_concat [symmetric]) simp_all
  also have "(\<Sum>c = 2 ^ k..<2 ^ k + 2 ^ k. \<Prod>i = 0..<Suc k. g i ((c div 2 ^ i) mod 2))
      = (\<Sum>c = 0..<2 ^ k. \<Prod>i = 0..<Suc k. g i (((c + 2 ^ k) div 2 ^ i) mod 2))"
    using sum.shift_bounds_nat_ivl [of "\<lambda>c. \<Prod>i = 0..<Suc k. g i ((c div 2 ^ i) mod 2)" 0 "2 ^ k" "2 ^ k"]
    by simp
  also have "(\<Sum>c = 0..<2 ^ k. \<Prod>i = 0..<Suc k. g i ((c div 2 ^ i) mod 2))
      = (\<Sum>c = 0..<2 ^ k. ?h c * g k 0)"
    by (intro sum.cong refl low) simp
  also have "(\<Sum>c = 0..<2 ^ k. \<Prod>i = 0..<Suc k. g i (((c + 2 ^ k) div 2 ^ i) mod 2))
      = (\<Sum>c = 0..<2 ^ k. ?h c * g k 1)"
    by (intro sum.cong refl high) simp
  also have "(\<Sum>c = 0..<2 ^ k. ?h c * g k 0) + (\<Sum>c = 0..<2 ^ k. ?h c * g k 1)
      = (\<Sum>c = 0..<2 ^ k. ?h c) * (g k 0 + g k 1)"
    by (simp add: sum_distrib_right [symmetric] distrib_left)
  finally show ?case
    by (simp add: Suc.IH)
qed

lemma comboProbability_bits:
  assumes "length cps \<le> 32" "c < 2 ^ length cps"
  shows "comboProbability cps c =
     (\<Prod>i = 0..<length cps. (\<lambda>i b. if b = 1 then cps ! i else 1 - cps ! i) i ((c div 2 ^ i) mod 2))"
proof -
  have "comboProbability cps c =
      prod_list (map (\<lambda>i. if (c div 2 ^ i) mod 2 = 1 then cps ! i else 1 - cps ! i) [0..<length cps])"
    unfolding comboProbability_eq
    by (rule arg_cong [where f = prod_list]) (simp add: js_bit_low [OF assms(1) _ assms(2)])
  also have "\<dots> = (\<Prod>i\<in>set [0..<length cps].
                    if (c div 2 ^ i) mod 2 = 1 then cps ! i else 1 - cps ! i)"
    by (rule prod.distinct_set_conv_list [symmetric]) simp
  finally show ?thesis
    by simp
qed

lemma sum_comboProbability:
  assumes "length cps \<le> 32"
  shows "(\<Sum>c = 0..<2 ^ length cps. comboProbability cps c) = 1"
proof -
  have "(\<Sum>c = 0..<2 ^ length cps. comboProbability cps c)
      = (\<Sum>c = 0..<2 ^ length cps.
           \<Prod>i = 0..<length cps. (\<lambda>i b. if b = 1 then cps ! i else 1 - cps ! i) i (((c::nat) div 2 ^ i) mod 2))"
    by (intro sum.cong refl comboProbability_bits assms) simp
  also have "\<dots> = (\<Prod>i = 0..<length cps. (if (0::nat) = 1 then cps ! i else 1 - cps ! i)
                                          + (if (1::nat) = 1 then cps ! i else 1 - cps ! i))"
    by (rule sum_bit_products)
  also have "\<dots> = 1"
    by simp
  finally show ?thesis .
qed

lemma sum_list_take_filter_le:
  fixes f :: "'a \<Rightarrow> real"
  assumes "\<And>x. x \<in> set xs \<Longrightarrow> 0 \<le> f x"
  shows "sum_list (map f (take n (filter P xs))) \<le> sum_list (map f xs)"
  using assms
proof (induction xs arbitrary: n)
  case Nil
  then show ?case by simp
next
  case (Cons x xs)
  have IH: "sum_list (map f (take k (filter P xs))) \<le> sum_list (map f xs)" for k
    using Cons by simp
  have x: "0 \<le> f x"
    using Cons.prems by simp
  have nn: "0 \<le> sum_list (map f xs)"
    using Cons.prems by (intro sum_list_nonneg) auto
  show ?case
  proof (cases "P x")
    case False
    then show ?thesis
      using IH [of n] x by simp
  next
    case True
    show ?thesis
    proof (cases n)
      case 0
      then show ?thesis using x nn by simp
    next
      case (Suc k)
      then show ?thesis
        using True IH [of k] by simp
    qed
  qed
qed

lemma sum_rawBranches_le:
  assumes "length (controlProbsOf sc init gates) \<le> 32"
    and "\<forall>p\<in>set (controlProbsOf sc init gates). 0 \<le> p \<and> p \<le> 1"
  shows "sum_list (map probability (rawBranches sc init gates)) \<le> 1"
proof -
  let ?cps = "controlProbsOf sc init gates"
  have len: "length (uniqueControlsOf gates) = length ?cps"
    by (simp add: controlProbsOf_def)
  have pr: "probability (comboBranch init gates uc ?cps c) = comboProbability ?cps c" for uc c
    by (simp add: comboBranch_def Let_def)
  have "sum_list (map probability (rawBranches sc init gates))
      = sum_list (map (comboProbability ?cps)
          (take 10 (filter (\<lambda>c. \<not> comboProbability ?cps c < 0.01) [0..<2 ^ length ?cps])))"
    unfolding rawBranches_char len by (simp add: comp_def pr)
  also have "\<dots> \<le> sum_list (map (comboProbability ?cps) [0..<2 ^ length ?cps])"
    by (intro sum_list_take_filter_le comboProbability_nonneg assms(2))
  also have "\<dots> = (\<Sum>c = 0..<2 ^ length ?cps. comboProbability ?cps c)"
    by (simp add: interv_sum_list_conv_sum_set_nat)
  also have "\<dots> = 1"
    by (rule sum_comboProbability [OF assms(1)])
  finally show ?thesis .
qed

subsection \<open>States of the cache are normalized\<close>

lemma cAbs_real: "cAbs (Complex x 0) = \<bar>x\<bar>"
  by (simp add: cAbs_def)

lemma unitNorm_initial: "unitNorm (getInitialQubitState mode)"
proof -
  have "(1 / sqrt 2)\<^sup>2 = 1 / (2::real)"
    by (simp add: power_divide)
  then show ?thesis
    by (simp add: unitNorm_def getInitialQubitState_def STATE_ZERO_def STATE_ONE_def
        STATE_PLUS_def SQRT2_INV_def cAbs_real)
qed

lemma unitNorm_applyGate: "unitNorm st \<Longrightarrow> unitNorm (applyGate st g)"
proof (cases "matrix g")
  case None
  then show "unitNorm st \<Longrightarrow> unitNorm (applyGate st g)"
    by (simp add: applyGate_def applyMatrix_def)
next
  case (Some m)
  then show "unitNorm st \<Longrightarrow> unitNorm (applyGate st g)"
    by (simp add: applyGate_def applyMatrix_Some unitNorm_def cAbs_eq normalize_state_unit)
qed

lemma unitNorm_columnStates:
  "unitNorm st \<Longrightarrow> s \<in> set (columnStates gs slots st) \<Longrightarrow> unitNorm s"
proof (induction slots arbitrary: st)
  case Nil
  then show ?case by simp
next
  case (Cons x slots)
  have next_unit: "unitNorm (case find (\<lambda>g. slot g = x) gs of
               Some gateAtSlot \<Rightarrow>
                 if gate gateAtSlot \<noteq> ''BARRIER'' \<and> gate gateAtSlot \<noteq> ''CONTROL''
                 then applyGate st gateAtSlot else st
             | None \<Rightarrow> st)"
    using Cons.prems(1) by (auto split: option.splits intro: unitNorm_applyGate)
  from Cons.prems(2) show ?case
    using Cons.prems(1) Cons.IH [OF next_unit] by auto
qed

lemma unitNorm_cache:
  "unitNorm (getControlStateAtSlot (buildColumnStateCache circuits barriers mode frame)
              (getInitialQubitState mode) c s)"
  unfolding getControlStateAtSlot_def buildColumnStateCache_def
  by (auto simp: unitNorm_initial intro!: unitNorm_columnStates [OF unitNorm_initial] nth_mem)

lemma prob1_range:
  assumes "unitNorm st"
  shows "0 \<le> prob1 (getProbabilities st) \<and> prob1 (getProbabilities st) \<le> 1"
proof -
  have "0 \<le> (cAbs (fst st))\<^sup>2" "0 \<le> (cAbs (snd st))\<^sup>2"
    by simp_all
  moreover have "(cAbs (fst st))\<^sup>2 + (cAbs (snd st))\<^sup>2 = 1"
    using assms by (simp add: unitNorm_def)
  ultimately have "0 \<le> (cAbs (snd st))\<^sup>2 \<and> (cAbs (snd st))\<^sup>2 \<le> 1"
    by linarith
  then show ?thesis
    by (simp add: getProbabilities_def)
qed

lemma controlProbs_range:
  "p \<in> set (controlProbsOf (buildColumnStateCache circuits barriers mode frame)
             (getInitialQubitState mode) gates)
   \<Longrightarrow> 0 \<le> p \<and> p \<le> 1"
  unfolding controlProbsOf_def
  by (auto split: option.splits simp: prob1_range [OF unitNorm_cache])

subsection \<open>Emitted branches\<close>

lemma emitBranches_char:
  assumes "length raw \<le> 10"
  shows "emitBranches init raw =
     (if raw = []
      then [\<lparr>state = init, coords = stateToBlochCoords init, probability = 1, rotations = []\<rparr>]
      else sort_key (\<lambda>b. - probability b) (mergeBranches raw []))"
proof -
  have "length (mergeBranches raw []) \<le> 10"
    using length_mergeBranches [of raw "[]"] assms by simp
  moreover have "sort_key (\<lambda>b. - probability b) (mergeBranches raw []) = [] \<longleftrightarrow> raw = []"
    using length_sort [of "\<lambda>b. - probability b" "mergeBranches raw []"]
    by (metis length_0_conv mergeBranches_Nil_iff)
  ultimately show ?thesis
    by (simp add: emitBranches_def Let_def)
qed

lemma sum_sort_key:
  "sum_list (map f (sort_key k xs)) = sum_list (map (f :: 'a \<Rightarrow> real) xs)"
proof -
  have "mset (map f (sort_key k xs)) = mset (map f xs)"
    by simp
  then show ?thesis
    by (metis sum_mset_sum_list)
qed

lemma sum_emitBranches:
  assumes "length raw \<le> 10"
  shows "sum_list (map probability (emitBranches init raw))
     = (if raw = [] then 1 else sum_list (map probability raw))"
  by (simp add: emitBranches_char [OF assms] sum_sort_key sum_mergeBranches)

lemma length_raw_10: "length (rawBranches sc init gates) \<le> 10"
  using length_rawBranches [of sc init gates] by simp

lemma sorted_desc_probability:
  "sorted_wrt (\<ge>) (map probability (sort_key (\<lambda>b. - probability b) (xs :: branch list)))"
proof -
  have "sorted (map (\<lambda>b. - probability b) (sort_key (\<lambda>b. - probability b) xs))"
    by (rule sorted_sort_key)
  then show ?thesis
    by (simp add: sorted_wrt_map)
qed

subsection \<open>What merging keeps\<close>

lemma coordsEqual_refl: "coordsEqual c c"
  by (simp add: coordsEqual_def)

lemma phasesEqual_refl: "phasesEqual r r"
  by (simp add: phasesEqual_def Let_def)

lemma mergeBranches_keeps:
  assumes "\<forall>b\<in>set bs. 0 \<le> probability b" "i < length ms"
  shows "i < length (mergeBranches bs ms)
    \<and> coords (mergeBranches bs ms ! i) = coords (ms ! i)
    \<and> rotations (mergeBranches bs ms ! i) = rotations (ms ! i)
    \<and> probability (ms ! i) \<le> probability (mergeBranches bs ms ! i)"
  using assms
proof (induction bs arbitrary: ms)
  case Nil
  then show ?case by simp
next
  case (Cons b bs)
  have nn: "\<forall>b\<in>set bs. 0 \<le> probability b" and b0: "0 \<le> probability b"
    using Cons.prems(1) by simp_all
  show ?case
  proof (cases "findIndex (\<lambda>e. coordsEqual (coords e) (coords b) \<and>
                          phasesEqual (rotations e) (rotations b)) ms")
    case None
    have i: "i < length (ms @ [b])"
      using Cons.prems(2) by simp
    from Cons.IH [OF nn i] None Cons.prems(2) show ?thesis
      by (simp add: nth_append)
  next
    case (Some j)
    let ?ms = "ms[j := (ms ! j)\<lparr>probability := probability (ms ! j) + probability b\<rparr>]"
    have i: "i < length ?ms"
      using Cons.prems(2) by simp
    have upd: "?ms ! i = (if i = j then (ms ! j)\<lparr>probability := probability (ms ! j) + probability b\<rparr>
                          else ms ! i)"
      using Cons.prems(2) by (simp add: nth_list_update)
    have c: "coords (?ms ! i) = coords (ms ! i)"
      unfolding upd by simp
    have r: "rotations (?ms ! i) = rotations (ms ! i)"
      unfolding upd by simp
    have p: "probability (ms ! i) \<le> probability (?ms ! i)"
      unfolding upd using b0 by simp
    from Cons.IH [OF nn i] have
      "i < length (mergeBranches bs ?ms)"
      "coords (mergeBranches bs ?ms ! i) = coords (?ms ! i)"
      "rotations (mergeBranches bs ?ms ! i) = rotations (?ms ! i)"
      "probability (?ms ! i) \<le> probability (mergeBranches bs ?ms ! i)"
      by blast+
    with c r p Some show ?thesis
      by simp
  qed
qed

lemma mergeBranches_covers:
  assumes "\<forall>b\<in>set bs. 0 \<le> probability b" "\<forall>m\<in>set ms. 0 \<le> probability m" "b \<in> set bs"
  shows "\<exists>m\<in>set (mergeBranches bs ms).
           coordsEqual (coords m) (coords b) \<and> phasesEqual (rotations m) (rotations b)
           \<and> probability b \<le> probability m"
  using assms
proof (induction bs arbitrary: ms)
  case Nil
  then show ?case by simp
next
  case (Cons a bs)
  have nn: "\<forall>b\<in>set bs. 0 \<le> probability b" and a0: "0 \<le> probability a"
    using Cons.prems(1) by simp_all
  let ?P = "\<lambda>e. coordsEqual (coords e) (coords a) \<and> phasesEqual (rotations e) (rotations a)"
  show ?case
  proof (cases "findIndex ?P ms")
    case None
    let ?ms = "ms @ [a]"
    have step: "mergeBranches (a # bs) ms = mergeBranches bs ?ms"
      using None by simp
    have ms0: "\<forall>m\<in>set ?ms. 0 \<le> probability m"
      using Cons.prems(2) a0 by simp
    show ?thesis
    proof (cases "b = a")
      case True
      have i: "length ms < length ?ms"
        by simp
      from mergeBranches_keeps [OF nn i]
      have "length ms < length (mergeBranches bs ?ms)"
        and "coords (mergeBranches bs ?ms ! length ms) = coords a"
        and "rotations (mergeBranches bs ?ms ! length ms) = rotations a"
        and "probability a \<le> probability (mergeBranches bs ?ms ! length ms)"
        by simp_all
      then show ?thesis
        unfolding step True
        by (intro bexI [of _ "mergeBranches bs ?ms ! length ms"])
           (simp_all add: coordsEqual_refl phasesEqual_refl)
    next
      case False
      with Cons.prems(3) have "b \<in> set bs"
        by simp
      from Cons.IH [OF nn ms0 this] show ?thesis
        unfolding step .
    qed
  next
    case (Some j)
    let ?ms = "ms[j := (ms ! j)\<lparr>probability := probability (ms ! j) + probability a\<rparr>]"
    have step: "mergeBranches (a # bs) ms = mergeBranches bs ?ms"
      using Some by simp
    from findIndex_Some [OF Some] have j: "j < length ms" and Pj: "?P (ms ! j)"
      by simp_all
    have pj: "0 \<le> probability (ms ! j)"
      using Cons.prems(2) j by simp
    have ms0: "\<forall>m\<in>set ?ms. 0 \<le> probability m"
    proof
      fix m
      assume "m \<in> set ?ms"
      then have "m \<in> insert ((ms ! j)\<lparr>probability := probability (ms ! j) + probability a\<rparr>) (set ms)"
        using set_update_subset_insert by fastforce
      then show "0 \<le> probability m"
        using Cons.prems(2) pj a0 by auto
    qed
    show ?thesis
    proof (cases "b = a")
      case True
      have i: "j < length ?ms"
        using j by simp
      from mergeBranches_keeps [OF nn i] j
      have "j < length (mergeBranches bs ?ms)"
        and "coords (mergeBranches bs ?ms ! j) = coords (ms ! j)"
        and "rotations (mergeBranches bs ?ms ! j) = rotations (ms ! j)"
        and "probability (ms ! j) + probability a \<le> probability (mergeBranches bs ?ms ! j)"
        by simp_all
      then show ?thesis
        unfolding step True using Pj pj
        by (intro bexI [of _ "mergeBranches bs ?ms ! j"]) simp_all
    next
      case False
      with Cons.prems(3) have "b \<in> set bs"
        by simp
      from Cons.IH [OF nn ms0 this] show ?thesis
        unfolding step .
    qed
  qed
qed

section \<open>The kickback scenarios\<close>

subsection \<open>Evaluating gates on concrete states\<close>

lemma SQRT2_INV_sq [simp]: "SQRT2_INV * SQRT2_INV = 1 / 2"
  by (simp add: SQRT2_INV_def)

lemma SQRT2_INV_pos: "0 < SQRT2_INV"
  by (simp add: SQRT2_INV_def)

lemma cAbs_sq: "(cAbs (Complex x y))\<^sup>2 = x * x + y * y"
  by (simp add: cAbs_def power2_eq_square [symmetric])

lemma normalize_state_id:
  assumes "Re a * Re a + Im a * Im a + (Re b * Re b + Im b * Im b) = 1"
  shows "normalize_state (a, b) = (a, b)"
proof -
  have "(cAbs a)\<^sup>2 + (cAbs b)\<^sup>2 = 1"
    using assms cAbs_sq [of "Re a" "Im a"] cAbs_sq [of "Re b" "Im b"] by simp
  then show ?thesis
    by (simp add: normalize_state_def Let_def complex_eq_iff)
qed

lemma applyMatrix_eval:
  assumes "cAdd (cMul m00 a) (cMul m01 b) = a'" "cAdd (cMul m10 a) (cMul m11 b) = b'"
    and "Re a' * Re a' + Im a' * Im a' + (Re b' * Re b' + Im b' * Im b') = 1"
  shows "applyMatrix (a, b) (Some ((m00, m01), (m10, m11))) = (a', b')"
  using assms by (simp add: applyMatrix_def normalize_state_id)

lemma H_zero: "applyGate STATE_ZERO (withSlot gate_H s) = STATE_PLUS"
  unfolding applyGate_def withSlot_def gate_H_def STATE_ZERO_def STATE_PLUS_def
  by (simp, rule applyMatrix_eval) (simp_all add: cAdd_def cMul_def)

lemma X_zero: "applyGate STATE_ZERO (withSlot gate_X s) = STATE_ONE"
  unfolding applyGate_def withSlot_def gate_X_def STATE_ZERO_def STATE_ONE_def
  by (simp, rule applyMatrix_eval) (simp_all add: cAdd_def cMul_def)

lemma Z_one: "applyGate STATE_ONE (withSlot (controlled_by c gate_Z) s) = (Complex 0 0, Complex (- 1) 0)"
  unfolding applyGate_def withSlot_def gate_Z_def STATE_ONE_def controlled_by_def
  by (simp, rule applyMatrix_eval) (simp_all add: cAdd_def cMul_def)





subsection \<open>Eigenphases of the controlled gates\<close>

lemma Complex_simps:
  "Complex 0 0 = 0" "Complex 1 0 = 1" "Complex (- 1) 0 = - 1" "Complex 0 1 = \<i>"
  by (simp_all add: complex_eq_iff)

lemma cPhase_values:
  "cPhase (- 1) = pi" "cPhase \<i> = pi / 2" "cPhase 1 = 0"
  by (simp_all add: cPhase_def atan2_def)

lemma all_less_2: "(\<forall>i<2. Q i) \<longleftrightarrow> Q 0 \<and> Q (Suc 0)" for Q :: "nat \<Rightarrow> bool"
  by (auto simp: less_2_cases_iff)

lemma ex_less_2: "(\<exists>i<2. Q i) \<longleftrightarrow> Q 0 \<or> Q (Suc 0)" for Q :: "nat \<Rightarrow> bool"
  by (auto simp: less_2_cases_iff)

lemma pi_big:
  "1 < pi * 100" "1 < pi * 50" "1 < pi * 200"
  "\<not> pi * 100 \<le> 1" "\<not> pi * 50 \<le> 1" "\<not> pi * 200 \<le> 1"
  "\<not> pi * 100 < 1" "\<not> pi * 50 < 1" "\<not> pi * 200 < 1"
  using pi_ge_two by simp_all

lemma findIndex_ONE: "findIndex (\<lambda>amp. cAbs amp > 1 / 100) (amplitudes STATE_ONE) = Some 1"
  by (simp add: amplitudes_def STATE_ONE_def cAbs_def)


lemma applyGate_matrix:
  "gate g \<noteq> ''BARRIER'' \<Longrightarrow> matrix g = Some m \<Longrightarrow> applyMatrix st (Some m) = applyGate st g"
  by (simp add: applyGate_def)

lemma kickback_Z_one:
  "getKickbackPhaseForControlledGate (Some (withSlot (controlled_by c gate_Z) s)) (Some STATE_ONE) (1 / 100)
     = Some pi"
proof -
  let ?g = "withSlot (controlled_by c gate_Z) s"
  have g: "gate ?g \<noteq> ''BARRIER''" "gate ?g \<noteq> ''CONTROL''"
      "matrix ?g = Some ((Complex 1 0, Complex 0 0), (Complex 0 0, Complex (- 1) 0))"
    by (simp_all add: withSlot_def controlled_by_def gate_Z_def)
  have ev: "amplitudes (applyMatrix STATE_ONE (Some ((Complex 1 0, Complex 0 0), (Complex 0 0, Complex (- 1) 0))))
            = [0, - 1]"
    unfolding applyGate_matrix [OF g(1) g(3)] Z_one by (simp add: amplitudes_def Complex_simps)
  have "getKickbackPhaseForControlledGate (Some ?g) (Some STATE_ONE) (1 / 100) = Some pi"
    by (subst kickback_unfold [OF g findIndex_ONE ev [symmetric] refl])
       (simp add: amplitudes_def STATE_ONE_def Complex_simps cPhase_values all_less_2 ex_less_2
          pi_big sgn_eq)
  then show ?thesis
    by simp
qed



subsection \<open>The controlled-Z scenario, step by step\<close>

lemma gate_names [simp]:
  "gate gate_H = ''H''" "gate gate_X = ''X''" "gate gate_Z = ''Z''" "gate gate_S = ''S''"
  "gate (gate_U t p l) = ''U''" "gate control_marker = ''CONTROL''"
  "gate (controlled_by c g) = gate g"
  by (simp_all add: gate_H_def gate_X_def gate_Z_def gate_S_def gate_U_def control_marker_def
      controlled_by_def)

lemma control_indices [simp]:
  "controlIndex gate_H = None" "controlIndex gate_X = None" "controlIndex gate_Z = None"
  "controlIndex gate_S = None" "controlIndex (gate_U t p l) = None"
  "controlIndex control_marker = None" "controlIndex (controlled_by c g) = Some c"
  by (simp_all add: gate_H_def gate_X_def gate_Z_def gate_S_def gate_U_def control_marker_def
      controlled_by_def)

lemma withSlot_sel [simp]:
  "gate (withSlot g s) = gate g" "slot (withSlot g s) = s"
  "controlIndex (withSlot g s) = controlIndex g" "decomposition (withSlot g s) = decomposition g"
  "matrix (withSlot g s) = matrix g"
  by (simp_all add: withSlot_def)

lemma kickbackGate_sel [simp]:
  "gate (kickbackGate ph s) = ''U''" "slot (kickbackGate ph s) = s"
  "controlIndex (kickbackGate ph s) = None"
  "decomposition (kickbackGate ph s) = Some \<lparr>theta = 0, phi = 0, lambda = ph\<rparr>"
  by (simp_all add: kickbackGate_def)

lemma decompositions [simp]:
  "decomposition gate_H = Some \<lparr>theta = pi / 2, phi = 0, lambda = pi\<rparr>"
  "decomposition gate_X = Some \<lparr>theta = pi, phi = 0, lambda = pi\<rparr>"
  "decomposition gate_Z = Some \<lparr>theta = 0, phi = 0, lambda = pi\<rparr>"
  "decomposition gate_S = Some \<lparr>theta = 0, phi = 0, lambda = pi / 2\<rparr>"
  "decomposition (gate_U t p l) = Some \<lparr>theta = t, phi = p, lambda = l\<rparr>"
  "decomposition control_marker = None"
  "decomposition (controlled_by c g) = decomposition g"
  by (simp_all add: gate_H_def gate_X_def gate_Z_def gate_S_def gate_U_def control_marker_def
      controlled_by_def)

lemma frame_full: "displayFrame [] (- 1) = 1"
  by (simp add: displayFrame_def)

lemma getOrderedGates_full:
  "getOrderedGates circuits [] q 1 =
     concat (map (\<lambda>(s, cell). case cell of None \<Rightarrow> [] | Some g \<Rightarrow> [withSlot g s])
               (enumerate 0 (if q < length circuits then circuits ! q else [])))"
  by (simp add: getOrderedGates_cases)

lemma CZ_rows:
  "getOrderedGates circuit_CZ [] 0 1 = [withSlot gate_H 0, withSlot control_marker (Suc 0)]"
  "getOrderedGates circuit_CZ [] (Suc 0) 1 =
     [withSlot gate_X 0, withSlot (controlled_by 0 gate_Z) (Suc 0)]"
  by (simp_all add: getOrderedGates_full circuit_CZ_def)

lemma CZ_maxSlot: "maxSlotOf circuit_CZ = 1"
  by (simp add: maxSlotOf_def circuit_CZ_def)

lemma upt_3: "[0..<3] = [0, 1, 2]"
  by (simp add: upt_rec)

lemma sort_key_slot_id:
  "sorted (map slot gs) \<Longrightarrow> sort_key slot gs = gs"
  by (rule sort_key_id_if_sorted)

lemma CZ_cache:
  "buildColumnStateCache circuit_CZ [] ''zero'' 1 =
     [[STATE_ZERO, STATE_PLUS, STATE_PLUS],
      [STATE_ZERO, STATE_ONE, (Complex 0 0, Complex (- 1) 0)]]"
  unfolding buildColumnStateCache_def CZ_maxSlot
  by (simp add: circuit_CZ_def upt_3 CZ_rows [unfolded circuit_CZ_def] getInitialQubitState_def
      H_zero X_zero Z_one upt_rec [of 0 2])

lemma upt_2: "[0..<2] = [0, Suc 0]"
  by (simp add: upt_rec)

lemma CZ_length: "length circuit_CZ = 2"
  by (simp add: circuit_CZ_def)

lemma lookup_simps:
  "getControlStateAtSlot [r0, r1] init 0 s = (if s < length r0 then r0 ! s else init)"
  "getControlStateAtSlot [r0, r1] init (Suc 0) s = (if s < length r1 then r1 ! s else init)"
  by (simp_all add: getControlStateAtSlot_def)

lemma CZ_kickback:
  "getKickbackGatesForControl circuit_CZ [] ''zero'' 1
     (buildColumnStateCache circuit_CZ [] ''zero'' 1) 0 = [kickbackGate pi (Suc 0)]"
  "getKickbackGatesForControl circuit_CZ [] ''zero'' 1
     (buildColumnStateCache circuit_CZ [] ''zero'' 1) (Suc 0) = []"
  unfolding getKickbackGatesForControl_def CZ_cache CZ_length upt_2
  by (simp_all add: CZ_rows lookup_simps kickback_Z_one pi_big)

lemma CZ_gates:
  "effectiveGates circuit_CZ [] ''zero'' 1 0 =
     [withSlot gate_H 0, withSlot control_marker (Suc 0), kickbackGate pi (Suc 0)]"
  "effectiveGates circuit_CZ [] ''zero'' 1 (Suc 0) =
     [withSlot gate_X 0, withSlot (controlled_by 0 gate_Z) (Suc 0)]"
  unfolding effectiveGates_def CZ_kickback CZ_rows
  by (simp_all add: sort_key_slot_id)



lemma coords_ONE:
  "stateToBlochCoords STATE_ONE = \<lparr>cx = 0, cy = 0, cz = - 1, ctheta = pi, cphi = 0\<rparr>"
  by (simp add: stateToBlochCoords_def STATE_ONE_def Let_def cAbs_def cPhase_def atan2_def)

lemma coords_minus_ONE:
  "stateToBlochCoords (Complex 0 0, Complex (- 1) 0)
     = \<lparr>cx = 0, cy = 0, cz = - 1, ctheta = pi, cphi = pi\<rparr>"
  by (simp add: stateToBlochCoords_def Let_def cAbs_def cPhase_def atan2_def)

lemma prob1_PLUS: "prob1 (getProbabilities STATE_PLUS) = 1 / 2"
  by (simp add: getProbabilities_def STATE_PLUS_def cAbs_sq)

lemma js_bit_values:
  "js_bit 0 0 = 0" "js_bit (Suc 0) 0 = 1"
  by (simp_all add: js_bit_def)

lemma CZ_target_controls:
  assumes "gate g \<noteq> ''CONTROL''"
  shows "uniqueControlsOf [withSlot gate_X 0, withSlot (controlled_by 0 g) (Suc 0)] = [0]"
    and "list_ex isControlledGate [withSlot gate_X 0, withSlot (controlled_by 0 g) (Suc 0)]"
  using assms by (simp_all add: uniqueControlsOf_def isControlledGate_def List.map_filter_def)

lemma CZ_target_probs:
  assumes "gate g \<noteq> ''CONTROL''"
  shows "controlProbsOf [[STATE_ZERO, STATE_PLUS, STATE_PLUS], r1] STATE_ZERO
           [withSlot gate_X 0, withSlot (controlled_by 0 g) (Suc 0)] = [1 / 2]"
  using assms
  by (simp add: controlProbsOf_def CZ_target_controls isControlledGate_def
      getControlStateAtSlot_def prob1_PLUS)

lemma combo_half:
  "comboProbability [1 / 2] 0 = 1 / 2" "comboProbability [1 / 2] (Suc 0) = 1 / 2"
  by (simp_all add: comboProbability_def js_bit_values)


lemma CZ_active:
  assumes "gate g \<noteq> ''CONTROL''"
  shows "activeGatesOf [withSlot gate_X 0, withSlot (controlled_by 0 g) (Suc 0)] [0] 0
           = [withSlot gate_X 0]"
    and "activeGatesOf [withSlot gate_X 0, withSlot (controlled_by 0 g) (Suc 0)] [0] (Suc 0)
           = [withSlot gate_X 0, withSlot (controlled_by 0 g) (Suc 0)]"
  using assms by (simp_all add: activeGatesOf_def controlActive_def js_bit_values)

lemma CZ_branches:
  "comboBranch STATE_ZERO [withSlot gate_X 0, withSlot (controlled_by 0 gate_Z) (Suc 0)]
     [0] [1 / 2] 0
   = \<lparr>state = STATE_ONE, coords = \<lparr>cx = 0, cy = 0, cz = - 1, ctheta = pi, cphi = 0\<rparr>,
      probability = 1 / 2, rotations = [\<lparr>theta = pi, phi = 0, lambda = pi\<rparr>]\<rparr>"
  "comboBranch STATE_ZERO [withSlot gate_X 0, withSlot (controlled_by 0 gate_Z) (Suc 0)]
     [0] [1 / 2] (Suc 0)
   = \<lparr>state = (Complex 0 0, Complex (- 1) 0),
      coords = \<lparr>cx = 0, cy = 0, cz = - 1, ctheta = pi, cphi = pi\<rparr>,
      probability = 1 / 2,
      rotations = [\<lparr>theta = pi, phi = 0, lambda = pi\<rparr>, \<lparr>theta = 0, phi = 0, lambda = pi\<rparr>]\<rparr>"
  by (simp_all add: comboBranch_def CZ_active Let_def X_zero Z_one coords_ONE coords_minus_ONE
      combo_half pi_big)


lemma init_zero: "getInitialQubitState ''zero'' = STATE_ZERO"
  by (simp add: getInitialQubitState_def)





subsection \<open>The controlled-S scenario\<close>
















subsection \<open>Controlled-Z on a target in state 0\<close>









lemma catalog_instances:
  "createGateInstance ''H'' None = Inr (Some gate_H)"
  "createGateInstance ''X'' None = Inr (Some gate_X)"
  "createGateInstance ''Z'' None = Inr (Some gate_Z)"
  "createGateInstance ''S'' None = Inr (Some gate_S)"
  "createGateInstance ''U'' (Some \<lparr>theta = t, phi = p, lambda = l\<rparr>) = Inr (Some (gate_U t p l))"
  by (simp_all add: createGateInstance_def GATES_get_def GATES_def Let_def
      gate_H_def gate_X_def gate_Z_def gate_S_def gate_U_def)




section \<open>A wire with four control wires\<close>

lemma sqrt3_sq [simp]: "sqrt 3 * sqrt 3 = 3"
  by simp

lemma U_rot_zero:
  "applyGate STATE_ZERO (withSlot (gate_U (2 * pi / 3) 0 0) s)
     = (Complex (1 / 2) 0, Complex (sqrt 3 / 2) 0)"
proof -
  have m: "createU3Matrix (2 * pi / 3) 0 0
      = ((Complex (1 / 2) 0, Complex (- (sqrt 3 / 2)) 0),
         (Complex (sqrt 3 / 2) 0, Complex (1 / 2) 0))"
    by (simp add: createU3Matrix_def cScale_def cFromPolar_def cos_60 sin_60)
  show ?thesis
    unfolding applyGate_def withSlot_def gate_U_def STATE_ZERO_def
    by (simp add: m, rule applyMatrix_eval) (simp_all add: cAdd_def cMul_def)
qed

lemma phase_gate_zero:
  "applyGate STATE_ZERO (withSlot (controlled_by c (gate_U 0 0 l)) s) = STATE_ZERO"
  unfolding applyGate_def withSlot_def gate_U_def STATE_ZERO_def controlled_by_def
    createU3Matrix_def
  by (simp, rule applyMatrix_eval) (simp_all add: cAdd_def cMul_def cScale_def cFromPolar_def)

lemma prob1_rot: "prob1 (getProbabilities (Complex (1 / 2) 0, Complex (sqrt 3 / 2) 0)) = 3 / 4"
  by (simp add: getProbabilities_def cAbs_sq)

lemma four_rows:
  "getOrderedGates circuit_4 [] 0 1 =
     [withSlot (gate_U (2 * pi / 3) 0 0) 0, withSlot control_marker 1]"
  "getOrderedGates circuit_4 [] 1 1 =
     [withSlot (gate_U (2 * pi / 3) 0 0) 0, withSlot control_marker 2]"
  "getOrderedGates circuit_4 [] 2 1 =
     [withSlot (gate_U (2 * pi / 3) 0 0) 0, withSlot control_marker 3]"
  "getOrderedGates circuit_4 [] 3 1 =
     [withSlot (gate_U (2 * pi / 3) 0 0) 0, withSlot control_marker 4]"
  "getOrderedGates circuit_4 [] 4 1 = gates_4"
  by (simp_all add: getOrderedGates_full circuit_4_def gates_4_def eval_nat_numeral)

lemma four_maxSlot: "maxSlotOf circuit_4 = 4"
  by (simp add: maxSlotOf_def circuit_4_def)

lemma four_length: "length circuit_4 = 5"
  by (simp add: circuit_4_def)

lemma upt_5: "[0..<5] = [0, 1, 2, 3, 4]"
  by (simp add: upt_rec)

lemma upt_6: "[0..<6] = [0, 1, 2, 3, 4, 5]"
  by (simp add: upt_rec)

lemma control_column:
  assumes "k \<noteq> 0"
  shows "columnStates [withSlot (gate_U (2 * pi / 3) 0 0) 0, withSlot control_marker k]
           [0, 1, 2, 3, 4, 5] STATE_ZERO
         = [STATE_ZERO,
            (Complex (1 / 2) 0, Complex (sqrt 3 / 2) 0), (Complex (1 / 2) 0, Complex (sqrt 3 / 2) 0),
            (Complex (1 / 2) 0, Complex (sqrt 3 / 2) 0), (Complex (1 / 2) 0, Complex (sqrt 3 / 2) 0),
            (Complex (1 / 2) 0, Complex (sqrt 3 / 2) 0)]"
  using assms by (simp add: U_rot_zero)

lemma target_column:
  "columnStates gates_4 [0, 1, 2, 3, 4, 5] STATE_ZERO
     = [STATE_ZERO, STATE_ZERO, STATE_ZERO, STATE_ZERO, STATE_ZERO, STATE_ZERO]"
  by (simp add: gates_4_def phase_gate_zero)

lemma sorted_rows:
  "k \<noteq> 0 \<Longrightarrow> sort_key slot [withSlot g 0, withSlot h k] = [withSlot g 0, withSlot h k]"
  "sort_key slot gates_4 = gates_4"
  by (simp_all add: gates_4_def)

lemma four_cache:
  "buildColumnStateCache circuit_4 [] ''zero'' 1 =
     [[STATE_ZERO,
       (Complex (1 / 2) 0, Complex (sqrt 3 / 2) 0), (Complex (1 / 2) 0, Complex (sqrt 3 / 2) 0),
       (Complex (1 / 2) 0, Complex (sqrt 3 / 2) 0), (Complex (1 / 2) 0, Complex (sqrt 3 / 2) 0),
       (Complex (1 / 2) 0, Complex (sqrt 3 / 2) 0)],
      [STATE_ZERO,
       (Complex (1 / 2) 0, Complex (sqrt 3 / 2) 0), (Complex (1 / 2) 0, Complex (sqrt 3 / 2) 0),
       (Complex (1 / 2) 0, Complex (sqrt 3 / 2) 0), (Complex (1 / 2) 0, Complex (sqrt 3 / 2) 0),
       (Complex (1 / 2) 0, Complex (sqrt 3 / 2) 0)],
      [STATE_ZERO,
       (Complex (1 / 2) 0, Complex (sqrt 3 / 2) 0), (Complex (1 / 2) 0, Complex (sqrt 3 / 2) 0),
       (Complex (1 / 2) 0, Complex (sqrt 3 / 2) 0), (Complex (1 / 2) 0, Complex (sqrt 3 / 2) 0),
       (Complex (1 / 2) 0, Complex (sqrt 3 / 2) 0)],
      [STATE_ZERO,
       (Complex (1 / 2) 0, Complex (sqrt 3 / 2) 0), (Complex (1 / 2) 0, Complex (sqrt 3 / 2) 0),
       (Complex (1 / 2) 0, Complex (sqrt 3 / 2) 0), (Complex (1 / 2) 0, Complex (sqrt 3 / 2) 0),
       (Complex (1 / 2) 0, Complex (sqrt 3 / 2) 0)],
      [STATE_ZERO, STATE_ZERO, STATE_ZERO, STATE_ZERO, STATE_ZERO, STATE_ZERO]]"
proof -
  have six: "[0..<maxSlotOf circuit_4 + 2] = [0, 1, 2, 3, 4, 5]"
    by (simp add: four_maxSlot upt_6)
  have k: "(1::nat) \<noteq> 0" "(2::nat) \<noteq> 0" "(3::nat) \<noteq> 0" "(4::nat) \<noteq> 0"
    by simp_all
  show ?thesis
    unfolding buildColumnStateCache_def six four_length upt_5 init_zero list.map four_rows
      sorted_rows(1) [OF k(1)] sorted_rows(1) [OF k(2)] sorted_rows(1) [OF k(3)]
      sorted_rows(1) [OF k(4)] sorted_rows(2)
      control_column [OF k(1)] control_column [OF k(2)] control_column [OF k(3)]
      control_column [OF k(4)] target_column ..
qed

lemma four_no_kickback:
  "getKickbackGatesForControl circuit_4 [] ''zero'' 1 sc 4 = []"
  unfolding getKickbackGatesForControl_def four_length upt_5 list.map four_rows
  by (simp add: gates_4_def)

lemma four_gates: "effectiveGates circuit_4 [] ''zero'' 1 4 = gates_4"
  unfolding effectiveGates_def four_no_kickback four_rows by (simp add: sorted_rows)

lemma four_controls:
  "uniqueControlsOf gates_4 = [0, 1, 2, 3]" "list_ex isControlledGate gates_4"
  by (simp_all add: uniqueControlsOf_def isControlledGate_def List.map_filter_def gates_4_def)

lemma four_probs:
  "controlProbsOf (buildColumnStateCache circuit_4 [] ''zero'' 1) STATE_ZERO gates_4
     = [3 / 4, 3 / 4, 3 / 4, 3 / 4]"
  unfolding controlProbsOf_def four_controls four_cache
  by (simp add: gates_4_def isControlledGate_def getControlStateAtSlot_def prob1_rot)

lemma upt_4: "[0..<4] = [0, 1, 2, 3]"
  by (simp add: upt_rec)

lemma upt_16: "[0..<16] = [0, 1, 2, 3, 4, 5, 6, 7, 8, 9, 10, 11, 12, 13, 14, 15]"
  by (simp add: upt_rec)

lemma four_combo_probabilities:
  "map (comboProbability [3 / 4, 3 / 4, 3 / 4, 3 / 4]) [0, 1, 2, 3, 4, 5, 6, 7, 8, 9, 10, 11, 12, 13, 14, 15]
     = [1 / 256, 3 / 256, 3 / 256, 9 / 256, 3 / 256, 9 / 256, 9 / 256, 27 / 256,
        3 / 256, 9 / 256, 9 / 256, 27 / 256, 9 / 256, 27 / 256, 27 / 256, 81 / 256]"
  by (simp add: comboProbability_def upt_4 js_bit_def)

lemma four_cp:
  "comboProbability [3 / 4, 3 / 4, 3 / 4, 3 / 4] 0 = 1 / 256"
  "comboProbability [3 / 4, 3 / 4, 3 / 4, 3 / 4] 1 = 3 / 256"
  "comboProbability [3 / 4, 3 / 4, 3 / 4, 3 / 4] 2 = 3 / 256"
  "comboProbability [3 / 4, 3 / 4, 3 / 4, 3 / 4] 3 = 9 / 256"
  "comboProbability [3 / 4, 3 / 4, 3 / 4, 3 / 4] 4 = 3 / 256"
  "comboProbability [3 / 4, 3 / 4, 3 / 4, 3 / 4] 5 = 9 / 256"
  "comboProbability [3 / 4, 3 / 4, 3 / 4, 3 / 4] 6 = 9 / 256"
  "comboProbability [3 / 4, 3 / 4, 3 / 4, 3 / 4] 7 = 27 / 256"
  "comboProbability [3 / 4, 3 / 4, 3 / 4, 3 / 4] 8 = 3 / 256"
  "comboProbability [3 / 4, 3 / 4, 3 / 4, 3 / 4] 9 = 9 / 256"
  "comboProbability [3 / 4, 3 / 4, 3 / 4, 3 / 4] 10 = 9 / 256"
  "comboProbability [3 / 4, 3 / 4, 3 / 4, 3 / 4] 11 = 27 / 256"
  "comboProbability [3 / 4, 3 / 4, 3 / 4, 3 / 4] 12 = 9 / 256"
  "comboProbability [3 / 4, 3 / 4, 3 / 4, 3 / 4] 13 = 27 / 256"
  "comboProbability [3 / 4, 3 / 4, 3 / 4, 3 / 4] 14 = 27 / 256"
  "comboProbability [3 / 4, 3 / 4, 3 / 4, 3 / 4] 15 = 81 / 256"
  using four_combo_probabilities by simp_all

lemma four_cp_Suc: "comboProbability [3 / 4, 3 / 4, 3 / 4, 3 / 4] (Suc 0) = 3 / 256"
  using four_cp(2) by simp

lemma four_raw:
  "rawBranches (buildColumnStateCache circuit_4 [] ''zero'' 1) STATE_ZERO gates_4
     = [branch_4 1, branch_4 2, branch_4 3, branch_4 4, branch_4 5,
        branch_4 6, branch_4 7, branch_4 8, branch_4 9, branch_4 10]"
  unfolding rawBranches_char four_controls four_probs
  by (simp add: upt_16 four_cp four_cp_Suc branch_4_def)

lemma applyGates_fixed:
  "(\<And>g. g \<in> set gs \<Longrightarrow> applyGate st g = st) \<Longrightarrow> applyGates gs st = st"
  by (induction gs) simp_all

lemma branch_4_probability: "probability (branch_4 c) = comboProbability [3 / 4, 3 / 4, 3 / 4, 3 / 4] c"
  by (simp add: branch_4_def comboBranch_def Let_def)

lemma branch_4_coords: "coords (branch_4 c) = stateToBlochCoords STATE_ZERO"
proof -
  have "applyGates (activeGatesOf gates_4 [0, 1, 2, 3] c) STATE_ZERO = STATE_ZERO"
  proof (rule applyGates_fixed)
    fix g assume "g \<in> set (activeGatesOf gates_4 [0, 1, 2, 3] c)"
    then have "g \<in> set gates_4"
      unfolding activeGatesOf_def by (simp del: One_nat_def)
    then show "applyGate STATE_ZERO g = STATE_ZERO"
      unfolding gates_4_def by (auto simp: phase_gate_zero)
  qed
  then show ?thesis
    by (simp add: branch_4_def comboBranch_def Let_def)
qed

lemma getTotalPhases_sums:
  "getTotalPhases rs =
     \<lparr>theta = normalizeAngle (sum_list (map theta rs)),
      phi = normalizeAngle (sum_list (map phi rs)),
      lambda = normalizeAngle (sum_list (map lambda rs))\<rparr>"
proof -
  have "foldl (\<lambda>(t, l, p) r. (t + theta r, l + lambda r, p + phi r)) (a, b, c) rs
      = (a + sum_list (map theta rs), b + sum_list (map lambda rs), c + sum_list (map phi rs))"
    for a b c
    by (induction rs arbitrary: a b c) (simp_all add: add.assoc)
  then show ?thesis
    by (simp add: getTotalPhases_def Let_def)
qed

lemma normalizeAngle_small: "0 \<le> a \<Longrightarrow> a \<le> 2 \<Longrightarrow> normalizeAngle a = a"
  using pi_ge_two by (intro normalizeAngle_id) linarith+

lemma branch_4_rotations:
  "rotations (branch_4 c) = buildRotations (activeGatesOf gates_4 [0, 1, 2, 3] c)"
  by (simp add: branch_4_def comboBranch_def Let_def)

lemma four_phases:
  "getTotalPhases (rotations (branch_4 1)) = \<lparr>theta = 0, phi = 0, lambda = 1 / 10\<rparr>"
  "getTotalPhases (rotations (branch_4 2)) = \<lparr>theta = 0, phi = 0, lambda = 2 / 10\<rparr>"
  "getTotalPhases (rotations (branch_4 3)) = \<lparr>theta = 0, phi = 0, lambda = 3 / 10\<rparr>"
  "getTotalPhases (rotations (branch_4 4)) = \<lparr>theta = 0, phi = 0, lambda = 4 / 10\<rparr>"
  "getTotalPhases (rotations (branch_4 5)) = \<lparr>theta = 0, phi = 0, lambda = 5 / 10\<rparr>"
  "getTotalPhases (rotations (branch_4 6)) = \<lparr>theta = 0, phi = 0, lambda = 6 / 10\<rparr>"
  "getTotalPhases (rotations (branch_4 7)) = \<lparr>theta = 0, phi = 0, lambda = 7 / 10\<rparr>"
  "getTotalPhases (rotations (branch_4 8)) = \<lparr>theta = 0, phi = 0, lambda = 8 / 10\<rparr>"
  "getTotalPhases (rotations (branch_4 9)) = \<lparr>theta = 0, phi = 0, lambda = 9 / 10\<rparr>"
  "getTotalPhases (rotations (branch_4 10)) = \<lparr>theta = 0, phi = 0, lambda = 10 / 10\<rparr>"
  by (simp_all add: branch_4_rotations activeGatesOf_def controlActive_def upt_4 js_bit_def
      gates_4_def getTotalPhases_sums normalizeAngle_small)

lemma four_phases_Suc:
  "getTotalPhases (rotations (branch_4 (Suc 0))) = \<lparr>theta = 0, phi = 0, lambda = 1 / 10\<rparr>"
  using four_phases(1) by simp

lemma four_merge:
  "mergeBranches [branch_4 1, branch_4 2, branch_4 3, branch_4 4, branch_4 5,
        branch_4 6, branch_4 7, branch_4 8, branch_4 9, branch_4 10] []
   = [branch_4 1, branch_4 2, branch_4 3, branch_4 4, branch_4 5,
        branch_4 6, branch_4 7, branch_4 8, branch_4 9, branch_4 10]"
  by (simp add: phasesEqual_def four_phases four_phases_Suc Let_def)

lemma four_sort:
  "sort_key (\<lambda>b. - probability b)
     [branch_4 1, branch_4 2, branch_4 3, branch_4 4, branch_4 5,
        branch_4 6, branch_4 7, branch_4 8, branch_4 9, branch_4 10]
   = [branch_4 7, branch_4 3, branch_4 5, branch_4 6, branch_4 9, branch_4 10,
      branch_4 1, branch_4 2, branch_4 4, branch_4 8]"
  by (simp add: branch_4_probability four_cp four_cp_Suc)

lemma four_wire4:
  "qubitBranches circuit_4 [] ''zero'' (- 1) ! 4
     = [branch_4 7, branch_4 3, branch_4 5, branch_4 6, branch_4 9, branch_4 10,
        branch_4 1, branch_4 2, branch_4 4, branch_4 8]"
proof -
  let ?sc = "buildColumnStateCache circuit_4 [] ''zero'' 1"
  have "qubitBranches circuit_4 [] ''zero'' (- 1) ! 4
      = wireBranches ?sc STATE_ZERO (effectiveGates circuit_4 [] ''zero'' 1 4)"
    unfolding qubitBranches_def Let_def frame_full four_length init_zero
    by (subst nth_map) simp_all
  also have "\<dots> = emitBranches STATE_ZERO (rawBranches ?sc STATE_ZERO gates_4)"
    unfolding four_gates wireBranches_def using four_controls(2) by simp
  also have "\<dots> = sort_key (\<lambda>b. - probability b)
                     (mergeBranches (rawBranches ?sc STATE_ZERO gates_4) [])"
    unfolding emitBranches_char [OF length_raw_10] by (simp add: four_raw)
  finally show ?thesis
    unfolding four_raw four_merge four_sort .
qed

lemma four_wire4_probabilities:
  "map probability (qubitBranches circuit_4 [] ''zero'' (- 1) ! 4)
     = [27 / 256, 9 / 256, 9 / 256, 9 / 256, 9 / 256, 9 / 256,
        3 / 256, 3 / 256, 3 / 256, 3 / 256]"
  unfolding four_wire4 by (simp add: branch_4_probability four_cp four_cp_Suc)

lemma four_phase_15:
  "getTotalPhases (rotations (branch_4 15)) = \<lparr>theta = 0, phi = 0, lambda = 15 / 10\<rparr>"
  by (simp add: branch_4_rotations activeGatesOf_def controlActive_def upt_4 js_bit_def
      gates_4_def getTotalPhases_sums normalizeAngle_small)

lemma four_no_match_15:
  "\<not> list_ex (\<lambda>b. coordsEqual (coords b) (coords (branch_4 15)) \<and>
                  phasesEqual (rotations b) (rotations (branch_4 15)))
       (qubitBranches circuit_4 [] ''zero'' (- 1) ! 4)"
  unfolding four_wire4
  by (simp add: phasesEqual_def four_phases four_phases_Suc four_phase_15 Let_def)

lemma four_accepted:
  "filter (\<lambda>c. \<not> comboProbability [3 / 4, 3 / 4, 3 / 4, 3 / 4] c < 0.01) [0..<16]
     = [1, 2, 3, 4, 5, 6, 7, 8, 9, 10, 11, 12, 13, 14, 15]"
  by (simp add: upt_16 four_cp four_cp_Suc)

section \<open>The branch cap\<close>

lemma three_controls:
  "uniqueControlsOf (butlast gates_4) = [0, 1, 2]"
  by (simp add: uniqueControlsOf_def isControlledGate_def List.map_filter_def gates_4_def)

text \<open>
  Claim C1, with the place of the cap corrected.  For a gate list with \<open>k\<close> distinct control
  wires the enumeration loop produces at most \<open>min (2^k) 10\<close> raw branches, at most 8 for
  three control wires.  They are the branches of the first ten control assignments, in
  increasing order of the assignment's number, whose probability is not below 0.01: the
  loop stops as soon as it has collected ten branches, so the cap of ten acts there,
  before merging and sorting.  The emitted list is the list of merged raw branches in
  descending order of probability, or the fallback branch when no branch was produced; it
  has at most ten entries, and the truncation after sorting removes nothing.
\<close>

theorem branch_cap_in_enumeration_order:
  "length (rawBranches sc init gates) \<le> min (2 ^ length (uniqueControlsOf gates)) 10
   \<and> (length (uniqueControlsOf gates) = 3 \<longrightarrow> length (rawBranches sc init gates) \<le> 8)
   \<and> rawBranches sc init gates =
       map (comboBranch init gates (uniqueControlsOf gates) (controlProbsOf sc init gates))
         (take 10 (filter (\<lambda>c. \<not> comboProbability (controlProbsOf sc init gates) c < 0.01)
                    [0..<2 ^ length (uniqueControlsOf gates)]))
   \<and> emitBranches init (rawBranches sc init gates) =
       (if rawBranches sc init gates = []
        then [\<lparr>state = init, coords = stateToBlochCoords init, probability = 1, rotations = []\<rparr>]
        else sort_key (\<lambda>b. - probability b) (mergeBranches (rawBranches sc init gates) []))
   \<and> length (emitBranches init (rawBranches sc init gates)) \<le> 10
   \<and> sorted_wrt (\<ge>) (map probability (emitBranches init (rawBranches sc init gates)))"
proof -
  let ?raw = "rawBranches sc init gates"
  have l: "length ?raw \<le> min (2 ^ length (uniqueControlsOf gates)) 10"
    by (rule length_rawBranches)
  have l3: "length ?raw \<le> 8" if "length (uniqueControlsOf gates) = 3"
    using l that by simp
  have e: "emitBranches init ?raw =
       (if ?raw = []
        then [\<lparr>state = init, coords = stateToBlochCoords init, probability = 1, rotations = []\<rparr>]
        else sort_key (\<lambda>b. - probability b) (mergeBranches ?raw []))"
    by (rule emitBranches_char [OF length_raw_10])
  have le: "length (emitBranches init ?raw) \<le> 10"
    using length_mergeBranches [of ?raw "[]"] length_raw_10 [of sc init gates]
    by (simp add: e)
  have so: "sorted_wrt (\<ge>) (map probability (emitBranches init ?raw))"
    unfolding e by (simp add: sorted_desc_probability)
  show ?thesis
    using l l3 e le so rawBranches_char [of sc init gates] by (intro conjI impI) simp_all
qed

theorem branch_cap_in_enumeration_order_witness:
  "length (uniqueControlsOf (butlast gates_4)) = 3
   \<and> length (rawBranches (buildColumnStateCache circuit_4 [] ''zero'' 1) STATE_ZERO
               (butlast gates_4)) \<le> 8"
proof -
  have k: "length (uniqueControlsOf (butlast gates_4)) = 3"
    by (simp add: three_controls)
  have "length (uniqueControlsOf (butlast gates_4)) = 3 \<longrightarrow>
        length (rawBranches (buildColumnStateCache circuit_4 [] ''zero'' 1) STATE_ZERO
                  (butlast gates_4)) \<le> 8"
    using branch_cap_in_enumeration_order
      [of "buildColumnStateCache circuit_4 [] ''zero'' 1" STATE_ZERO "butlast gates_4"]
    by (rule conjunct1 [OF conjunct2])
  with k show ?thesis
    by (intro conjI) (rule k, rule mp)
qed

lemma branch_4_fun:
  "comboBranch STATE_ZERO gates_4 [0, 1, 2, 3] [3 / 4, 3 / 4, 3 / 4, 3 / 4] = branch_4"
  by (rule ext) (simp add: branch_4_def)

text \<open>
  Wire 4 of \<^const>\<open>circuit_4\<close> has four control wires, each active with probability 3/4.
  Fifteen of the sixteen control assignments have a probability of at least 0.01.  The
  emitted branches are those of the assignments 1 to 10, sorted; the loop never reaches
  the assignments 11 to 15, of probabilities 27/256, 9/256, 27/256, 27/256 and 81/256,
  while four branches of probability 3/256 are emitted: the cap does not drop the
  branches of lowest probability first.
\<close>

theorem cap_drops_likely_assignments:
  "uniqueControlsOf (effectiveGates circuit_4 [] ''zero'' (displayFrame [] (- 1)) 4) = [0, 1, 2, 3]
   \<and> controlProbsOf (buildColumnStateCache circuit_4 [] ''zero'' (displayFrame [] (- 1)))
         (getInitialQubitState ''zero'')
         (effectiveGates circuit_4 [] ''zero'' (displayFrame [] (- 1)) 4)
       = [3 / 4, 3 / 4, 3 / 4, 3 / 4]
   \<and> qubitBranches circuit_4 [] ''zero'' (- 1) ! 4
       = map (comboBranch (getInitialQubitState ''zero'')
                (effectiveGates circuit_4 [] ''zero'' (displayFrame [] (- 1)) 4)
                [0, 1, 2, 3] [3 / 4, 3 / 4, 3 / 4, 3 / 4])
           [7, 3, 5, 6, 9, 10, 1, 2, 4, 8]
   \<and> map probability (qubitBranches circuit_4 [] ''zero'' (- 1) ! 4)
       = [27 / 256, 9 / 256, 9 / 256, 9 / 256, 9 / 256, 9 / 256,
          3 / 256, 3 / 256, 3 / 256, 3 / 256]
   \<and> map (comboProbability [3 / 4, 3 / 4, 3 / 4, 3 / 4]) [11, 12, 13, 14, 15]
       = [27 / 256, 9 / 256, 27 / 256, 27 / 256, 81 / 256]"
proof -
  have p: "map (comboProbability [3 / 4, 3 / 4, 3 / 4, 3 / 4]) [11, 12, 13, 14, 15]
       = [27 / 256, 9 / 256, 27 / 256, 27 / 256, 81 / 256]"
    by (simp add: four_cp)
  have w: "qubitBranches circuit_4 [] ''zero'' (- 1) ! 4
       = map branch_4 [7, 3, 5, 6, 9, 10, 1, 2, 4, 8]"
    unfolding four_wire4 by simp
  show ?thesis
    unfolding frame_full init_zero four_gates branch_4_fun
    using four_controls(1) four_probs w four_wire4_probabilities p by (intro conjI)
qed

section \<open>Emitted probabilities\<close>

lemma max_combo_accepted:
  assumes k: "length cps \<le> 3"
    and c: "c < 2 ^ length cps"
    and mx: "\<forall>c'<2 ^ length cps. comboProbability cps c' \<le> comboProbability cps c"
  shows "c \<in> set (take 10 (filter (\<lambda>c. \<not> comboProbability cps c < 0.01) [0..<2 ^ length cps]))"
proof -
  let ?N = "(2::nat) ^ length cps"
  have N8: "?N \<le> 8"
    using power_increasing [of "length cps" 3 "2::nat"] k by simp
  have "(\<Sum>c' = 0..<?N. comboProbability cps c') \<le> (\<Sum>c' = 0..<?N. comboProbability cps c)"
    using mx by (intro sum_mono) simp
  moreover have "(\<Sum>c' = 0..<?N. comboProbability cps c') = 1"
    using k by (intro sum_comboProbability) simp
  ultimately have "1 \<le> real ?N * comboProbability cps c"
    by simp
  then have one: "1 \<le> real ?N * comboProbability cps c" .
  have P0: "0 \<le> comboProbability cps c"
  proof (rule ccontr)
    assume "\<not> 0 \<le> comboProbability cps c"
    then have "real ?N * comboProbability cps c \<le> 0"
      by (intro mult_nonneg_nonpos) simp_all
    with one show False
      by simp
  qed
  have "real ?N \<le> real 8"
    using N8 by (simp only: of_nat_le_iff)
  then have "real ?N * comboProbability cps c \<le> 8 * comboProbability cps c"
    using P0 by (intro mult_right_mono) simp_all
  with one have "1 \<le> 8 * comboProbability cps c"
    by linarith
  then have acc: "\<not> comboProbability cps c < 0.01"
    by simp
  have "length (filter (\<lambda>c. \<not> comboProbability cps c < 0.01) [0..<?N]) \<le> 10"
    using length_filter_le [of "\<lambda>c. \<not> comboProbability cps c < 0.01" "[0..<?N]"] N8 by simp
  then show ?thesis
    using acc c by simp
qed

text \<open>
  Claim C2, with the retention of the largest branch restricted.  For every wire of the
  circuit and every frame whose effective gate list has at most 32 distinct control wires,
  the probabilities of the emitted branches sum to at most 1.  When the wire has a
  controlled gate and the control assignment \<open>c\<close> has the largest probability of all
  assignments, a branch at the position and with the phases of the branch of \<open>c\<close>, of at
  least the probability of \<open>c\<close>, is emitted, provided that \<open>c\<close> is among the first ten
  assignments that pass the threshold 0.01; with at most three control wires it always is.
\<close>

theorem emitted_probabilities:
  assumes qi: "qi < length circuits"
    and k: "length (uniqueControlsOf
                     (effectiveGates circuits barriers mode (displayFrame barriers af) qi)) \<le> 32"
  shows "sum_list (map probability (qubitBranches circuits barriers mode af ! qi)) \<le> 1
    \<and> (let frame = displayFrame barriers af;
            gates = effectiveGates circuits barriers mode frame qi;
            sc = buildColumnStateCache circuits barriers mode frame;
            init = getInitialQubitState mode;
            uc = uniqueControlsOf gates;
            cps = controlProbsOf sc init gates
        in list_ex isControlledGate gates \<longrightarrow>
           (\<forall>c<2 ^ length uc.
              (\<forall>c'<2 ^ length uc. comboProbability cps c' \<le> comboProbability cps c) \<longrightarrow>
              (c \<in> set (take 10 (filter (\<lambda>c. \<not> comboProbability cps c < 0.01) [0..<2 ^ length uc]))
               \<or> length uc \<le> 3) \<longrightarrow>
              (\<exists>m\<in>set (qubitBranches circuits barriers mode af ! qi).
                 coordsEqual (coords m) (coords (comboBranch init gates uc cps c))
                 \<and> phasesEqual (rotations m) (rotations (comboBranch init gates uc cps c))
                 \<and> comboProbability cps c \<le> probability m)))"
proof -
  define frame where "frame = displayFrame barriers af"
  define gates where "gates = effectiveGates circuits barriers mode frame qi"
  define sc where "sc = buildColumnStateCache circuits barriers mode frame"
  define init where "init = getInitialQubitState mode"
  define uc where "uc = uniqueControlsOf gates"
  define cps where "cps = controlProbsOf sc init gates"
  define raw where "raw = rawBranches sc init gates"
  have out: "qubitBranches circuits barriers mode af ! qi = wireBranches sc init gates"
    using qi by (simp add: qubitBranches_def Let_def frame_def gates_def sc_def init_def)
  have len: "length cps = length uc"
    by (simp add: cps_def uc_def controlProbsOf_def)
  have k32: "length cps \<le> 32"
    using k by (simp add: len uc_def gates_def frame_def)
  have range: "\<forall>p\<in>set cps. 0 \<le> p \<and> p \<le> 1"
    unfolding cps_def sc_def init_def using controlProbs_range by blast
  have rawc: "raw = map (comboBranch init gates uc cps)
       (take 10 (filter (\<lambda>c. \<not> comboProbability cps c < 0.01) [0..<2 ^ length uc]))"
    unfolding raw_def rawBranches_char cps_def uc_def ..
  have raw10: "length raw \<le> 10"
    unfolding raw_def by (rule length_raw_10)
  have emit: "emitBranches init raw =
       (if raw = []
        then [\<lparr>state = init, coords = stateToBlochCoords init, probability = 1, rotations = []\<rparr>]
        else sort_key (\<lambda>b. - probability b) (mergeBranches raw []))"
    by (rule emitBranches_char [OF raw10])
  have sum_raw: "sum_list (map probability raw) \<le> 1"
    unfolding raw_def using k32 range unfolding cps_def by (intro sum_rawBranches_le) simp_all
  have total: "sum_list (map probability (wireBranches sc init gates)) \<le> 1"
  proof (cases "list_ex isControlledGate gates")
    case False
    then show ?thesis
      by (simp add: wireBranches_def singleBranch_def Let_def)
  next
    case True
    then show ?thesis
      using sum_raw by (simp add: wireBranches_def raw_def [symmetric] sum_emitBranches [OF raw10])
  qed
  have kept: "\<exists>m\<in>set (wireBranches sc init gates).
                 coordsEqual (coords m) (coords (comboBranch init gates uc cps c))
                 \<and> phasesEqual (rotations m) (rotations (comboBranch init gates uc cps c))
                 \<and> comboProbability cps c \<le> probability m"
    if ctl: "list_ex isControlledGate gates"
      and c: "c < 2 ^ length uc"
      and mx: "\<forall>c'<2 ^ length uc. comboProbability cps c' \<le> comboProbability cps c"
      and sel: "c \<in> set (take 10 (filter (\<lambda>c. \<not> comboProbability cps c < 0.01) [0..<2 ^ length uc]))
               \<or> length uc \<le> 3" for c
  proof -
    have "c \<in> set (take 10 (filter (\<lambda>c. \<not> comboProbability cps c < 0.01) [0..<2 ^ length uc]))"
      using sel max_combo_accepted [of cps c] c mx by (auto simp: len)
    then have b: "comboBranch init gates uc cps c \<in> set raw"
      unfolding rawc by simp
    then have ne: "raw \<noteq> []"
      by auto
    have nn: "\<forall>b\<in>set raw. 0 \<le> probability b"
      unfolding rawc using comboProbability_nonneg [OF range]
      by (auto simp: comboBranch_def Let_def)
    from mergeBranches_covers [OF nn _ b, of "[]"]
    obtain m where m: "m \<in> set (mergeBranches raw [])"
        "coordsEqual (coords m) (coords (comboBranch init gates uc cps c))"
        "phasesEqual (rotations m) (rotations (comboBranch init gates uc cps c))"
        "probability (comboBranch init gates uc cps c) \<le> probability m"
      by auto
    have "wireBranches sc init gates = sort_key (\<lambda>b. - probability b) (mergeBranches raw [])"
      using ctl ne by (simp add: wireBranches_def raw_def [symmetric] emit)
    then have "m \<in> set (wireBranches sc init gates)"
      using m(1) by simp
    moreover have "probability (comboBranch init gates uc cps c) = comboProbability cps c"
      by (simp add: comboBranch_def Let_def)
    ultimately show ?thesis
      using m(2,3,4) by auto
  qed
  have "sum_list (map probability (wireBranches sc init gates)) \<le> 1
    \<and> (list_ex isControlledGate gates \<longrightarrow>
           (\<forall>c<2 ^ length uc.
              (\<forall>c'<2 ^ length uc. comboProbability cps c' \<le> comboProbability cps c) \<longrightarrow>
              (c \<in> set (take 10 (filter (\<lambda>c. \<not> comboProbability cps c < 0.01) [0..<2 ^ length uc]))
               \<or> length uc \<le> 3) \<longrightarrow>
              (\<exists>m\<in>set (wireBranches sc init gates).
                 coordsEqual (coords m) (coords (comboBranch init gates uc cps c))
                 \<and> phasesEqual (rotations m) (rotations (comboBranch init gates uc cps c))
                 \<and> comboProbability cps c \<le> probability m)))"
  proof (intro conjI impI allI)
    show "sum_list (map probability (wireBranches sc init gates)) \<le> 1"
      by (rule total)
  next
    fix c
    assume "list_ex isControlledGate gates" "c < 2 ^ length uc"
      "\<forall>c'<2 ^ length uc. comboProbability cps c' \<le> comboProbability cps c"
      "c \<in> set (take 10 (filter (\<lambda>c. \<not> comboProbability cps c < 0.01) [0..<2 ^ length uc]))
               \<or> length uc \<le> 3"
    then show "\<exists>m\<in>set (wireBranches sc init gates).
                 coordsEqual (coords m) (coords (comboBranch init gates uc cps c))
                 \<and> phasesEqual (rotations m) (rotations (comboBranch init gates uc cps c))
                 \<and> comboProbability cps c \<le> probability m"
      by (rule kept)
  qed
  then show ?thesis
    unfolding Let_def out
      frame_def [symmetric] gates_def [symmetric] sc_def [symmetric] init_def [symmetric]
      uc_def [symmetric] cps_def [symmetric] .
qed

theorem emitted_probabilities_witness:
  "Suc 0 < length circuit_CZ
   \<and> uniqueControlsOf (effectiveGates circuit_CZ [] ''zero'' (displayFrame [] (- 1)) (Suc 0)) = [0]
   \<and> sum_list (map probability (qubitBranches circuit_CZ [] ''zero'' (- 1) ! Suc 0)) \<le> 1
   \<and> (\<exists>m\<in>set (qubitBranches circuit_CZ [] ''zero'' (- 1) ! Suc 0).
         coordsEqual (coords m) \<lparr>cx = 0, cy = 0, cz = - 1, ctheta = pi, cphi = 0\<rparr>
         \<and> phasesEqual (rotations m) [\<lparr>theta = pi, phi = 0, lambda = pi\<rparr>]
         \<and> 1 / 2 \<le> probability m)"
proof -
  have qi: "Suc 0 < length circuit_CZ"
    by (simp add: CZ_length)
  have g: "gate gate_Z \<noteq> ''CONTROL''"
    by (simp add: gate_Z_def)
  have uc: "uniqueControlsOf (effectiveGates circuit_CZ [] ''zero'' (displayFrame [] (- 1)) (Suc 0))
      = [0]"
    unfolding frame_full CZ_gates by (rule CZ_target_controls [OF g])
  have k: "length (uniqueControlsOf
             (effectiveGates circuit_CZ [] ''zero'' (displayFrame [] (- 1)) (Suc 0))) \<le> 32"
    unfolding uc by simp
  note T = emitted_probabilities [OF qi k, unfolded Let_def, unfolded frame_full
      CZ_gates CZ_cache init_zero CZ_target_controls [OF g] CZ_target_probs [OF g]]
  have ctl: "list_ex isControlledGate [withSlot gate_X 0, withSlot (controlled_by 0 gate_Z) (Suc 0)]"
    by (rule CZ_target_controls [OF g])
  have mx: "\<forall>c'<2 ^ length [0::nat]. comboProbability [1 / 2] c' \<le> comboProbability [1 / 2] 0"
    by (simp add: all_less_2 combo_half)
  have c0: "(0::nat) < 2 ^ length [0::nat]" and k3: "length [0::nat] \<le> 3"
    by simp_all
  from T have "\<exists>m\<in>set (qubitBranches circuit_CZ [] ''zero'' (- 1) ! Suc 0).
         coordsEqual (coords m)
           (coords (comboBranch STATE_ZERO
              [withSlot gate_X 0, withSlot (controlled_by 0 gate_Z) (Suc 0)] [0] [1 / 2] 0))
         \<and> phasesEqual (rotations m)
           (rotations (comboBranch STATE_ZERO
              [withSlot gate_X 0, withSlot (controlled_by 0 gate_Z) (Suc 0)] [0] [1 / 2] 0))
         \<and> comboProbability [1 / 2] 0 \<le> probability m"
    using ctl mx c0 k3 by blast
  then have "\<exists>m\<in>set (qubitBranches circuit_CZ [] ''zero'' (- 1) ! Suc 0).
         coordsEqual (coords m) \<lparr>cx = 0, cy = 0, cz = - 1, ctheta = pi, cphi = 0\<rparr>
         \<and> phasesEqual (rotations m) [\<lparr>theta = pi, phi = 0, lambda = pi\<rparr>]
         \<and> 1 / 2 \<le> probability m"
    unfolding CZ_branches combo_half by simp
  with qi uc T show ?thesis
    by simp
qed

lemma Max_four_emitted:
  "Max (set (map probability (qubitBranches circuit_4 [] ''zero'' (- 1) ! 4))) = 27 / 256"
  unfolding four_wire4_probabilities by simp

lemma branch_15_absent: "branch_4 15 \<notin> set (qubitBranches circuit_4 [] ''zero'' (- 1) ! 4)"
proof
  assume "branch_4 15 \<in> set (qubitBranches circuit_4 [] ''zero'' (- 1) ! 4)"
  then have "probability (branch_4 15)
      \<in> set (map probability (qubitBranches circuit_4 [] ''zero'' (- 1) ! 4))"
    by simp
  then show False
    unfolding four_wire4_probabilities by (simp add: branch_4_probability four_cp)
qed

lemma four_emitted_phases:
  "map (lambda \<circ> getTotalPhases \<circ> rotations) (qubitBranches circuit_4 [] ''zero'' (- 1) ! 4)
     = [7 / 10, 3 / 10, 5 / 10, 6 / 10, 9 / 10, 10 / 10, 1 / 10, 2 / 10, 4 / 10, 8 / 10]"
  unfolding four_wire4 by (simp add: four_phases four_phases_Suc)

text \<open>
  On wire 4 of \<^const>\<open>circuit_4\<close> the assignment 15, all four controls active, has the
  largest probability, 81/256.  Its branch is not in the emitted list: the largest
  emitted probability is 27/256, and the total phase 1.5 of the branch differs from the
  total phase of every emitted branch by 0.5 or more, so that it was not merged into one
  of them either.
\<close>

theorem largest_assignment_not_emitted:
  "map (comboProbability
            (controlProbsOf
               (buildColumnStateCache circuit_4 [] ''zero'' (displayFrame [] (- 1)))
               (getInitialQubitState ''zero'')
               (effectiveGates circuit_4 [] ''zero'' (displayFrame [] (- 1)) 4)))
        [0..<2 ^ 4]
       = [1 / 256, 3 / 256, 3 / 256, 9 / 256, 3 / 256, 9 / 256, 9 / 256, 27 / 256,
          3 / 256, 9 / 256, 9 / 256, 27 / 256, 9 / 256, 27 / 256, 27 / 256, 81 / 256]
   \<and> Max (set (map probability (qubitBranches circuit_4 [] ''zero'' (- 1) ! 4))) = 27 / 256
   \<and> comboBranch (getInitialQubitState ''zero'')
        (effectiveGates circuit_4 [] ''zero'' (displayFrame [] (- 1)) 4)
        [0, 1, 2, 3] [3 / 4, 3 / 4, 3 / 4, 3 / 4] 15
       \<notin> set (qubitBranches circuit_4 [] ''zero'' (- 1) ! 4)
   \<and> lambda (getTotalPhases (rotations
        (comboBranch (getInitialQubitState ''zero'')
           (effectiveGates circuit_4 [] ''zero'' (displayFrame [] (- 1)) 4)
           [0, 1, 2, 3] [3 / 4, 3 / 4, 3 / 4, 3 / 4] 15))) = 15 / 10
   \<and> map (lambda \<circ> getTotalPhases \<circ> rotations) (qubitBranches circuit_4 [] ''zero'' (- 1) ! 4)
       = [7 / 10, 3 / 10, 5 / 10, 6 / 10, 9 / 10, 10 / 10, 1 / 10, 2 / 10, 4 / 10, 8 / 10]"
proof -
  have p: "map (comboProbability [3 / 4, 3 / 4, 3 / 4, 3 / 4]) [0..<2 ^ 4]
       = [1 / 256, 3 / 256, 3 / 256, 9 / 256, 3 / 256, 9 / 256, 9 / 256, 27 / 256,
          3 / 256, 9 / 256, 9 / 256, 27 / 256, 9 / 256, 27 / 256, 27 / 256, 81 / 256]"
    using four_combo_probabilities by (simp add: upt_16)
  have l: "lambda (getTotalPhases (rotations (branch_4 15))) = 15 / 10"
    by (simp add: four_phase_15)
  show ?thesis
    unfolding frame_full init_zero four_gates four_probs branch_4_def [symmetric]
    using p Max_four_emitted branch_15_absent l four_emitted_phases by (intro conjI)
qed

end
